theory Spec2Isabelle
  imports Complex_Main
begin

section \<open>Host numbers\<close>

text \<open>
  A JavaScript number is modelled by its mathematical value: \<open>NaN\<close>, the two infinities,
  or a finite rational. The program only compares such numbers with zero and takes
  remainders of small integers by them; both are exact on binary64 values.
\<close>

datatype jsnum = NaN | Fin rat | PosInf | NegInf

definition num_truthy :: "jsnum \<Rightarrow> bool" where
  "num_truthy n = (case n of NaN \<Rightarrow> False | Fin q \<Rightarrow> q \<noteq> 0 | PosInf \<Rightarrow> True | NegInf \<Rightarrow> True)"

definition num_positive :: "jsnum \<Rightarrow> bool" where
  \<comment> \<open>\<open>n > 0\<close>; false for \<open>NaN\<close>.\<close>
  "num_positive n = (case n of NaN \<Rightarrow> False | Fin q \<Rightarrow> 0 < q | PosInf \<Rightarrow> True | NegInf \<Rightarrow> False)"

definition trunc_rat :: "rat \<Rightarrow> int" where
  "trunc_rat q = (if 0 \<le> q then \<lfloor>q\<rfloor> else - \<lfloor>- q\<rfloor>)"

definition js_rem :: "jsnum \<Rightarrow> jsnum \<Rightarrow> jsnum" where
  \<comment> \<open>The \<open>%\<close> operator: the remainder has the sign of the dividend.\<close>
  "js_rem n d =
     (case n of
        Fin a \<Rightarrow>
          (case d of
             NaN \<Rightarrow> NaN
           | PosInf \<Rightarrow> Fin a
           | NegInf \<Rightarrow> Fin a
           | Fin b \<Rightarrow> if b = 0 then NaN else Fin (a - b * of_int (trunc_rat (a / b))))
      | _ \<Rightarrow> NaN)"

definition rem_is_zero :: "int \<Rightarrow> jsnum \<Rightarrow> bool" where
  \<comment> \<open>\<open>n % d === 0\<close> for an integer \<open>n\<close>.\<close>
  "rem_is_zero n d = (js_rem (Fin (of_int n)) d = Fin 0)"

section \<open>Dates\<close>

text \<open>
  A \<open>Date\<close> object holds a time value: milliseconds since the epoch in UTC, or \<open>NaN\<close>
  for an invalid date. The calendar functions below are those of the ECMAScript
  specification (Day, TimeWithinDay, DaysInYear, DayFromYear, YearFromTime,
  MonthFromTime, DateFromTime, WeekDay, MakeDay, MakeDate, TimeClip).
\<close>

datatype jsdate = InvalidDate | Date int

definition msPerDay :: int where
  "msPerDay = 86400000"

definition maxTime :: int where
  "maxTime = 8640000000000000"

definition timeClip :: "int \<Rightarrow> jsdate" where
  "timeClip t = (if \<bar>t\<bar> \<le> maxTime then Date t else InvalidDate)"

definition Day :: "int \<Rightarrow> int" where
  "Day t = t div msPerDay"

definition TimeWithinDay :: "int \<Rightarrow> int" where
  "TimeWithinDay t = t mod msPerDay"

definition DaysInYear :: "int \<Rightarrow> int" where
  "DaysInYear y =
     (if y mod 4 \<noteq> 0 then 365
      else if y mod 100 \<noteq> 0 then 366
      else if y mod 400 \<noteq> 0 then 365
      else 366)"

definition DayFromYear :: "int \<Rightarrow> int" where
  "DayFromYear y =
     365 * (y - 1970) + (y - 1969) div 4 - (y - 1901) div 100 + (y - 1601) div 400"

definition yearOfDay :: "int \<Rightarrow> int" where
  \<comment> \<open>The year containing day number \<open>d\<close>, that is the largest \<open>y\<close> with
      \<open>DayFromYear y \<le> d\<close>: an estimate from the mean year length, corrected by at most
      one year.\<close>
  "yearOfDay d =
     (let y = 1970 + (d * 400) div 146097
      in if d < DayFromYear y then y - 1
         else if DayFromYear (y + 1) \<le> d then y + 1
         else y)"

definition YearFromTime :: "int \<Rightarrow> int" where
  "YearFromTime t = yearOfDay (Day t)"

definition InLeapYear :: "int \<Rightarrow> int" where
  "InLeapYear t = (if DaysInYear (YearFromTime t) = 366 then 1 else 0)"

definition DayWithinYear :: "int \<Rightarrow> int" where
  "DayWithinYear t = Day t - DayFromYear (YearFromTime t)"

definition MonthFromTime :: "int \<Rightarrow> int" where
  "MonthFromTime t =
     (let d = DayWithinYear t; leap = InLeapYear t
      in if d < 31 then 0
         else if d < 59 + leap then 1
         else if d < 90 + leap then 2
         else if d < 120 + leap then 3
         else if d < 151 + leap then 4
         else if d < 181 + leap then 5
         else if d < 212 + leap then 6
         else if d < 243 + leap then 7
         else if d < 273 + leap then 8
         else if d < 304 + leap then 9
         else if d < 334 + leap then 10
         else 11)"

definition DateFromTime :: "int \<Rightarrow> int" where
  "DateFromTime t =
     (let d = DayWithinYear t; leap = InLeapYear t; m = MonthFromTime t
      in if m = 0 then d + 1
         else if m = 1 then d - 30
         else if m = 2 then d - 58 - leap
         else if m = 3 then d - 89 - leap
         else if m = 4 then d - 119 - leap
         else if m = 5 then d - 150 - leap
         else if m = 6 then d - 180 - leap
         else if m = 7 then d - 211 - leap
         else if m = 8 then d - 242 - leap
         else if m = 9 then d - 272 - leap
         else if m = 10 then d - 303 - leap
         else d - 333 - leap)"

definition WeekDay :: "int \<Rightarrow> int" where
  "WeekDay t = (Day t + 4) mod 7"

definition monthStart :: "int \<Rightarrow> int \<Rightarrow> int" where
  \<comment> \<open>Days of the year before month \<open>m\<close> (0 to 11); \<open>leap\<close> is 1 in a leap year.\<close>
  "monthStart leap m =
     (if m = 0 then 0
      else if m = 1 then 31
      else if m = 2 then 59 + leap
      else if m = 3 then 90 + leap
      else if m = 4 then 120 + leap
      else if m = 5 then 151 + leap
      else if m = 6 then 181 + leap
      else if m = 7 then 212 + leap
      else if m = 8 then 243 + leap
      else if m = 9 then 273 + leap
      else if m = 10 then 304 + leap
      else 334 + leap)"

definition MakeDay :: "int \<Rightarrow> int \<Rightarrow> int \<Rightarrow> int" where
  \<comment> \<open>The day number of the first of month \<open>month\<close> of \<open>year\<close> (months outside 0 to 11 carry
      into the year), plus \<open>date - 1\<close>, computed by arithmetic for every year.\<close>
  "MakeDay year month date =
     (let ym = year + month div 12; mn = month mod 12
      in DayFromYear ym + monthStart (if DaysInYear ym = 366 then 1 else 0) mn + date - 1)"

definition MakeDate :: "int \<Rightarrow> int \<Rightarrow> int" where
  "MakeDate day time = day * msPerDay + time"

text \<open>
  The host's time zone: \<open>utcOffset z t\<close> is the offset of local time from UTC, in
  milliseconds, at the UTC instant \<open>t\<close>; \<open>localOffset z l\<close> is the offset the host uses
  to turn the local wall-clock time \<open>l\<close> back into UTC.
\<close>

record zone =
  utcOffset :: "int \<Rightarrow> int"
  localOffset :: "int \<Rightarrow> int"

definition LocalTime :: "zone \<Rightarrow> int \<Rightarrow> int" where
  "LocalTime z t = t + utcOffset z t"

definition UTC :: "zone \<Rightarrow> int \<Rightarrow> int" where
  "UTC z l = l - localOffset z l"

definition fixedZone :: "int \<Rightarrow> zone" where
  "fixedZone c = \<lparr> utcOffset = (\<lambda>_. c), localOffset = (\<lambda>_. c) \<rparr>"

definition newYork2024 :: zone where
  \<comment> \<open>New York in 2024: UTC-5, and UTC-4 from 10 March 07:00 UTC to 3 November
      06:00 UTC. A wall-clock time skipped by the change in March is read with the
      offset before it; one repeated in November with the earlier offset.\<close>
  "newYork2024 =
     \<lparr> utcOffset = (\<lambda>t. if 1710054000000 \<le> t \<and> t < 1730613600000
                        then - 14400000 else - 18000000),
       localOffset = (\<lambda>l. if 1710039600000 \<le> l \<and> l < 1730599200000
                          then - 14400000 else - 18000000) \<rparr>"

definition getFullYear :: "zone \<Rightarrow> int \<Rightarrow> int" where
  "getFullYear z t = YearFromTime (LocalTime z t)"

definition getMonth :: "zone \<Rightarrow> int \<Rightarrow> int" where
  "getMonth z t = MonthFromTime (LocalTime z t)"

definition getDate :: "zone \<Rightarrow> int \<Rightarrow> int" where
  "getDate z t = DateFromTime (LocalTime z t)"

definition getDay :: "zone \<Rightarrow> int \<Rightarrow> int" where
  "getDay z t = WeekDay (LocalTime z t)"

definition setMonth :: "zone \<Rightarrow> int \<Rightarrow> int \<Rightarrow> jsdate" where
  "setMonth z t m =
     (let l = LocalTime z t
      in timeClip (UTC z (MakeDate (MakeDay (YearFromTime l) m (DateFromTime l))
                                   (TimeWithinDay l))))"

definition setDate :: "zone \<Rightarrow> int \<Rightarrow> int \<Rightarrow> jsdate" where
  "setDate z t dt =
     (let l = LocalTime z t
      in timeClip (UTC z (MakeDate (MakeDay (YearFromTime l) (MonthFromTime l) dt)
                                   (TimeWithinDay l))))"

section \<open>Strings\<close>

text \<open>
  Strings are lists of 8-bit characters standing for ASCII code units; the string
  methods below are the host's, restricted to such text.
\<close>

definition isWhiteSpace :: "char \<Rightarrow> bool" where
  \<comment> \<open>Tab, line feed, vertical tab, form feed, carriage return, space.\<close>
  "isWhiteSpace c = (of_char c \<in> {9::nat, 10, 11, 12, 13, 32})"

definition trim :: "string \<Rightarrow> string" where
  "trim s = rev (dropWhile isWhiteSpace (rev (dropWhile isWhiteSpace s)))"

definition upperChar :: "char \<Rightarrow> char" where
  "upperChar c =
     (let n = (of_char c :: nat) in if 97 \<le> n \<and> n \<le> 122 then char_of (n - 32) else c)"

definition toUpperCase :: "string \<Rightarrow> string" where
  "toUpperCase s = map upperChar s"

fun split_on :: "char \<Rightarrow> string \<Rightarrow> string list" where
  "split_on sep [] = [[]]"
| "split_on sep (c # cs) =
     (if c = sep then [] # split_on sep cs
      else (case split_on sep cs of
              [] \<Rightarrow> [[c]]
            | p # ps \<Rightarrow> (c # p) # ps))"

definition isDigit :: "char \<Rightarrow> bool" where
  "isDigit c = (let n = (of_char c :: nat) in 48 \<le> n \<and> n \<le> 57)"

definition digitValue :: "char \<Rightarrow> int" where
  \<comment> \<open>The value of a digit or letter as a digit of a base up to 16; 99 for any other character.\<close>
  "digitValue c =
     (let n = (of_char c :: nat)
      in if 48 \<le> n \<and> n \<le> 57 then int n - 48
         else if 97 \<le> n \<and> n \<le> 102 then int n - 87
         else if 65 \<le> n \<and> n \<le> 70 then int n - 55
         else 99)"

definition digitsValue :: "int \<Rightarrow> string \<Rightarrow> int" where
  "digitsValue base ds = foldl (\<lambda>acc c. acc * base + digitValue c) 0 ds"

definition allDigits :: "int \<Rightarrow> string \<Rightarrow> bool" where
  "allDigits base ds = (ds \<noteq> [] \<and> list_all (\<lambda>c. digitValue c < base) ds)"

section \<open>Conversion of a string to a number\<close>

definition pow2 :: "int \<Rightarrow> rat" where
  "pow2 k = (if 0 \<le> k then 2 ^ nat k else 1 / 2 ^ nat (- k))"

definition pow10 :: "int \<Rightarrow> rat" where
  "pow10 k = (if 0 \<le> k then 10 ^ nat k else 1 / 10 ^ nat (- k))"

function bitLength :: "int \<Rightarrow> int" where
  \<comment> \<open>The number of binary digits of a positive integer.\<close>
  "bitLength n = (if n \<le> 0 then 0 else 1 + bitLength (n div 2))"
  by pat_completeness auto
termination
  by (relation "measure nat") auto

definition roundHalfEven :: "rat \<Rightarrow> int" where
  "roundHalfEven x =
     (let f = \<lfloor>x\<rfloor>; r = x - of_int f
      in if r < 1 / 2 then f
         else if 1 / 2 < r then f + 1
         else if even f then f else f + 1)"

definition roundDouble :: "rat \<Rightarrow> jsnum" where
  \<comment> \<open>The binary64 value nearest to \<open>q\<close>, ties to even; an infinity on overflow.\<close>
  "roundDouble q =
     (if q = 0 then Fin 0
      else
        (let a = \<bar>q\<bar>;
             nd = quotient_of a;
             k = bitLength (fst nd) - bitLength (snd nd);
             e2 = (if pow2 k \<le> a then k else k - 1);
             ex = max e2 (- 1022) - 52;
             v = of_int (roundHalfEven (a / pow2 ex)) * pow2 ex
         in if pow2 1024 \<le> v then (if 0 < q then PosInf else NegInf)
            else Fin (if 0 < q then v else - v)))"

definition parseExponent :: "string \<Rightarrow> int option" where
  \<comment> \<open>The exponent part of a decimal literal, or nothing: \<open>None\<close> when malformed.\<close>
  "parseExponent s =
     (case s of
        [] \<Rightarrow> Some 0
      | c # r \<Rightarrow>
          if c = CHR ''e'' \<or> c = CHR ''E'' then
            (case r of
               [] \<Rightarrow> None
             | d # r' \<Rightarrow>
                 if d = CHR ''+'' then
                   (if allDigits 10 r' then Some (digitsValue 10 r') else None)
                 else if d = CHR ''-'' then
                   (if allDigits 10 r' then Some (- digitsValue 10 r') else None)
                 else if allDigits 10 r then Some (digitsValue 10 r) else None)
          else None)"

definition parseUnsignedDecimal :: "string \<Rightarrow> rat option" where
  \<comment> \<open>Digits, an optional fraction and an optional exponent; \<open>None\<close> when malformed.\<close>
  "parseUnsignedDecimal s =
     (let ip = takeWhile isDigit s;
          r1 = dropWhile isDigit s;
          hasDot = (r1 \<noteq> [] \<and> hd r1 = CHR ''.'');
          fp = (if hasDot then takeWhile isDigit (tl r1) else []);
          r2 = (if hasDot then dropWhile isDigit (tl r1) else r1)
      in if ip = [] \<and> fp = [] then None
         else (case parseExponent r2 of
                 None \<Rightarrow> None
               | Some e \<Rightarrow>
                   Some (of_int (digitsValue 10 (ip @ fp)) * pow10 (e - int (length fp)))))"

definition parseNumericLiteral :: "string \<Rightarrow> jsnum" where
  "parseNumericLiteral s =
     (let pre = toUpperCase (take 2 s); r = drop 2 s
      in if pre = ''0X'' then (if allDigits 16 r then roundDouble (of_int (digitsValue 16 r)) else NaN)
         else if pre = ''0O'' then (if allDigits 8 r then roundDouble (of_int (digitsValue 8 r)) else NaN)
         else if pre = ''0B'' then (if allDigits 2 r then roundDouble (of_int (digitsValue 2 r)) else NaN)
         else
           (let neg = (s \<noteq> [] \<and> hd s = CHR ''-'');
                u = (if s \<noteq> [] \<and> (hd s = CHR ''+'' \<or> hd s = CHR ''-'') then tl s else s)
            in if u = ''Infinity'' then (if neg then NegInf else PosInf)
               else (case parseUnsignedDecimal u of
                       None \<Rightarrow> NaN
                     | Some q \<Rightarrow> roundDouble (if neg then - q else q))))"

definition toNumber :: "string \<Rightarrow> jsnum" where
  \<comment> \<open>\<open>Number(s)\<close> for a string: blank text is zero, a numeric literal its value,
      anything else \<open>NaN\<close>.\<close>
  "toNumber s = (let t = trim s in if t = [] then Fin 0 else parseNumericLiteral t)"

section \<open>Recurrence rules\<close>

record ParsedRecurrence =
  freq :: "string option"
  interval :: jsnum
  byDay :: "string list"

definition emptyRecurrence :: ParsedRecurrence where
  "emptyRecurrence = \<lparr> freq = None, interval = Fin 1, byDay = [] \<rparr>"

definition stripRRule :: "string \<Rightarrow> string" where
  \<comment> \<open>\<open>rrule.replace(/^RRULE:/i, '')\<close>\<close>
  "stripRRule s = (if toUpperCase (take 6 s) = ''RRULE:'' then drop 6 s else s)"

definition applyPart :: "ParsedRecurrence \<Rightarrow> string \<Rightarrow> ParsedRecurrence" where
  \<comment> \<open>The body of the \<open>forEach\<close> over the parts of the rule.\<close>
  "applyPart result part =
     (case split_on CHR ''='' part of
        key # val # _ \<Rightarrow>
          if key = [] \<or> val = [] then result
          else
            (let k = toUpperCase (trim key); v = trim val
             in if k = ''FREQ'' then result\<lparr> freq := Some (toUpperCase v) \<rparr>
                else if k = ''INTERVAL'' then
                  (let num = toNumber v
                   in if num \<noteq> NaN \<and> num_positive num then result\<lparr> interval := num \<rparr>
                      else result)
                else if k = ''BYDAY'' then
                  result\<lparr> byDay := filter (\<lambda>d. d \<noteq> [])
                                        (map trim (split_on CHR '','' (toUpperCase v))) \<rparr>
                else result)
      | _ \<Rightarrow> result)"

definition parseRecurrence :: "string \<Rightarrow> ParsedRecurrence" where
  "parseRecurrence rrule =
     (let body = trim (stripRRule rrule)
      in if body = [] then emptyRecurrence
         else foldl applyPart emptyRecurrence (split_on CHR '';'' body))"

definition freqOrDaily :: "ParsedRecurrence \<Rightarrow> string" where
  \<comment> \<open>\<open>parsed.freq || 'DAILY'\<close>\<close>
  "freqOrDaily parsed =
     (case freq parsed of None \<Rightarrow> ''DAILY'' | Some f \<Rightarrow> if f = [] then ''DAILY'' else f)"

definition intervalOrOne :: "ParsedRecurrence \<Rightarrow> jsnum" where
  \<comment> \<open>\<open>parsed.interval || 1\<close>\<close>
  "intervalOrOne parsed = (if num_truthy (interval parsed) then interval parsed else Fin 1)"

definition incrementRecurrence :: "zone \<Rightarrow> jsdate \<Rightarrow> ParsedRecurrence \<Rightarrow> jsdate" where
  "incrementRecurrence z date parsed =
     (case date of
        InvalidDate \<Rightarrow> InvalidDate
      | Date t \<Rightarrow>
          if freqOrDaily parsed = ''MONTHLY'' then setMonth z t (getMonth z t + 1)
          else setDate z t (getDate z t + 1))"

definition getWeekdayCode :: "int \<Rightarrow> string" where
  "getWeekdayCode day =
     (if 0 \<le> day \<and> day < 7
      then [''SU'', ''MO'', ''TU'', ''WE'', ''TH'', ''FR'', ''SA''] ! nat day
      else ''MO'')"

definition matchesRecurrence :: "zone \<Rightarrow> jsdate \<Rightarrow> jsdate \<Rightarrow> ParsedRecurrence \<Rightarrow> bool" where
  \<comment> \<open>With an invalid candidate or base every difference is \<open>NaN\<close>, each comparison
      with it is false and each remainder is not zero, so every path returns false.\<close>
  "matchesRecurrence z candidate base parsed =
     (case (candidate, base) of
        (Date c, Date b) \<Rightarrow>
          (let fr = freqOrDaily parsed;
               iv = intervalOrOne parsed;
               daysDiff = (c - b) div msPerDay
           in if daysDiff \<le> 0 then False
              else if fr = ''DAILY'' then rem_is_zero daysDiff iv
              else if fr = ''WEEKLY'' \<and> 0 < daysDiff then
                (let weeksDiff = daysDiff div 7
                 in if \<not> rem_is_zero weeksDiff iv then False
                    else if byDay parsed \<noteq> [] then
                      getWeekdayCode (getDay z c) \<in> set (byDay parsed)
                    else True)
              else if fr = ''MONTHLY'' then
                (let monthsDiff = (getFullYear z c - getFullYear z b) * 12
                                  + (getMonth z c - getMonth z b)
                 in if monthsDiff \<le> 0 then False
                    else if \<not> rem_is_zero monthsDiff iv then False
                    else getDate z c = getDate z b)
              else fr = ''DAILY'')
      | _ \<Rightarrow> False)"

function searchLoop ::
  "zone \<Rightarrow> ParsedRecurrence \<Rightarrow> jsdate \<Rightarrow> jsdate \<Rightarrow> nat \<Rightarrow> jsdate option" where
  "searchLoop z parsed baseDate candidate iterations =
     (if iterations < 500 then
        (let candidate' = incrementRecurrence z candidate parsed
         in if matchesRecurrence z candidate' baseDate parsed then Some candidate'
            else searchLoop z parsed baseDate candidate' (iterations + 1))
      else None)"
  by pat_completeness auto
termination
  by (relation "measure (\<lambda>(z, parsed, baseDate, candidate, iterations). 500 - iterations)") auto

definition nextOccurrence :: "zone \<Rightarrow> ParsedRecurrence \<Rightarrow> jsdate \<Rightarrow> jsdate option" where
  \<comment> \<open>\<open>computeNextOccurrence\<close> after the rule is parsed and the anchor constructed.\<close>
  "nextOccurrence z parsed baseDate =
     (if baseDate = InvalidDate \<or> freq parsed = None \<or> freq parsed = Some [] then None
      else searchLoop z parsed baseDate baseDate 0)"

definition computeNextOccurrence :: "zone \<Rightarrow> string \<Rightarrow> jsdate \<Rightarrow> jsdate option" where
  \<comment> \<open>\<open>baseDate\<close> is \<open>new Date(scheduled)\<close>.\<close>
  "computeNextOccurrence z rrule baseDate = nextOccurrence z (parseRecurrence rrule) baseDate"

section \<open>Naming the next file\<close>

definition digitChar :: "int \<Rightarrow> char" where
  "digitChar n = char_of (48 + nat (n mod 10))"

fun padDigits :: "nat \<Rightarrow> int \<Rightarrow> string" where
  \<comment> \<open>The last \<open>w\<close> decimal digits of \<open>n\<close>.\<close>
  "padDigits 0 n = []"
| "padDigits (Suc w) n = padDigits w (n div 10) @ [digitChar n]"

definition toISOString :: "int \<Rightarrow> string" where
  \<comment> \<open>Of a valid time value, in UTC: four digits for the years 0 to 9999, a sign and six
      digits for any other year.\<close>
  "toISOString t =
     (let y = YearFromTime t;
          ys = (if 0 \<le> y \<and> y \<le> 9999 then padDigits 4 y
                else (if y < 0 then ''-'' else ''+'') @ padDigits 6 \<bar>y\<bar>)
      in ys @ ''-'' @ padDigits 2 (MonthFromTime t + 1) @ ''-'' @ padDigits 2 (DateFromTime t)
         @ ''T'' @ padDigits 2 ((t div 3600000) mod 24)
         @ '':'' @ padDigits 2 ((t div 60000) mod 60)
         @ '':'' @ padDigits 2 ((t div 1000) mod 60)
         @ ''.'' @ padDigits 3 (t mod 1000) @ ''Z'')"

definition isLineTerminator :: "char \<Rightarrow> bool" where
  "isLineTerminator c = (of_char c \<in> {10::nat, 13})"

definition isDateToken :: "string \<Rightarrow> bool" where
  \<comment> \<open>\<open>\d{4}-\d{2}-\d{2}\<close>\<close>
  "isDateToken s =
     (case s of
        [a, b, c, d, h1, e, f, h2, g, h] \<Rightarrow>
          isDigit a \<and> isDigit b \<and> isDigit c \<and> isDigit d \<and> h1 = CHR ''-'' \<and>
          isDigit e \<and> isDigit f \<and> h2 = CHR ''-'' \<and> isDigit g \<and> isDigit h
      | _ \<Rightarrow> False)"

definition replaceTrailingDate :: "string \<Rightarrow> string \<Rightarrow> string" where
  \<comment> \<open>\<open>baseName.replace(/(.*?)(\d{4}-\d{2}-\d{2})(?!.*\d{4}-\d{2}-\d{2})$/,
      (match, prefix) => `${prefix.trim()} ${dateStr}`)\<close>. The pattern can only match with
      the date token as the last ten characters; the match starts as far left as the
      dot (any character but a line terminator) allows.\<close>
  "replaceTrailingDate baseName dateStr =
     (let n = length baseName
      in if 10 \<le> n \<and> isDateToken (drop (n - 10) baseName) then
           (let lead = take (n - 10) baseName;
                prefix = rev (takeWhile (\<lambda>c. \<not> isLineTerminator c) (rev lead));
                kept = take (length lead - length prefix) lead
            in kept @ trim prefix @ '' '' @ dateStr)
         else baseName)"

definition isExtChar :: "char \<Rightarrow> bool" where
  \<comment> \<open>\<open>[^./\\]\<close>\<close>
  "isExtChar c = (c \<noteq> CHR ''.'' \<and> c \<noteq> CHR ''/'' \<and> c \<noteq> CHR 0x5C)"

definition extensionOf :: "string \<Rightarrow> string" where
  \<comment> \<open>The match of \<open>/(\.[^./\\]+)$/\<close>, empty when there is none.\<close>
  "extensionOf nm =
     (let r = rev nm; suf = takeWhile isExtChar r; rest = dropWhile isExtChar r
      in if suf \<noteq> [] \<and> rest \<noteq> [] \<and> hd rest = CHR ''.'' then CHR ''.'' # rev suf else [])"

definition generateNextName :: "string \<Rightarrow> int \<Rightarrow> string" where
  \<comment> \<open>\<open>nextDate\<close> is the time value of a valid date.\<close>
  "generateNextName originalName nextDate =
     (let dateStr = take 10 (toISOString nextDate);
          ext = extensionOf originalName;
          baseName = trim (if ext \<noteq> [] then take (length originalName - length ext) originalName
                           else originalName);
          replaced = replaceTrailingDate baseName dateStr
      in if replaced \<noteq> baseName then trim replaced @ ext
         else baseName @ (if baseName \<noteq> [] then '' '' else []) @ dateStr @ ext)"

section \<open>Frontmatter and the vault\<close>

text \<open>
  A frontmatter value is null, a boolean, a number, a string or a list (mappings nested
  in the frontmatter are left out); a key that is absent reads as \<open>undefined\<close>. The
  vault maps a path to the stored file.
\<close>

datatype jsval = VNull | VBool bool | VNum jsnum | VStr string | VList "jsval list"

type_synonym frontmatter = "string \<rightharpoonup> jsval"

record StoredFile =
  storedFrontmatter :: frontmatter
  storedBody :: string

type_synonym vault = "string \<rightharpoonup> StoredFile"

record TFile =
  filePath :: string
  fileName :: string
  fileParent :: "string option"

datatype jserror = RangeError

datatype completion = Returned | Threw jserror

definition truthy :: "jsval option \<Rightarrow> bool" where
  "truthy v =
     (case v of
        None \<Rightarrow> False
      | Some VNull \<Rightarrow> False
      | Some (VBool b) \<Rightarrow> b
      | Some (VNum n) \<Rightarrow> num_truthy n
      | Some (VStr s) \<Rightarrow> s \<noteq> []
      | Some (VList _) \<Rightarrow> True)"

fun valToNumber :: "jsval \<Rightarrow> jsnum" where
  \<comment> \<open>\<open>Number(v)\<close>; a list converts through its text, the elements joined by commas.\<close>
  "valToNumber VNull = Fin 0"
| "valToNumber (VBool b) = (if b then Fin 1 else Fin 0)"
| "valToNumber (VNum n) = n"
| "valToNumber (VStr s) = toNumber s"
| "valToNumber (VList []) = Fin 0"
| "valToNumber (VList [x]) =
     (case x of
        VNull \<Rightarrow> Fin 0
      | VBool _ \<Rightarrow> NaN
      | VNum n \<Rightarrow> n
      | VStr s \<Rightarrow> toNumber s
      | VList l \<Rightarrow> valToNumber (VList l))"
| "valToNumber (VList (x # y # r)) = NaN"

definition optToNumber :: "jsval option \<Rightarrow> jsnum" where
  "optToNumber v = (case v of None \<Rightarrow> NaN | Some x \<Rightarrow> valToNumber x)"

definition getRecurrenceValue :: "frontmatter option \<Rightarrow> string" where
  "getRecurrenceValue fmo =
     (case fmo of
        None \<Rightarrow> []
      | Some fm \<Rightarrow>
          (let val = (if truthy (fm ''recurrenceRule'') then fm ''recurrenceRule''
                      else fm ''recurrence'')
           in case val of Some (VStr s) \<Rightarrow> s | _ \<Rightarrow> []))"

definition updateFrontmatterValue ::
  "vault \<Rightarrow> string \<Rightarrow> string \<Rightarrow> jsval option \<Rightarrow> vault" where
  \<comment> \<open>\<open>value\<close> is \<open>None\<close> for \<open>undefined\<close>. The file at \<open>p\<close> is in the vault at every call.\<close>
  "updateFrontmatterValue v p key value =
     (case v p of
        None \<Rightarrow> v
      | Some f \<Rightarrow>
          v(p \<mapsto> f\<lparr> storedFrontmatter :=
                       (if value = None \<or> value = Some VNull \<or> value = Some (VStr [])
                        then (storedFrontmatter f)(key := None)
                        else (storedFrontmatter f)(key := value)) \<rparr>))"

definition dateOfNumber :: "jsnum \<Rightarrow> jsdate" where
  \<comment> \<open>\<open>new Date(n)\<close> for a number: its integral part, when in the range of time values.\<close>
  "dateOfNumber n = (case n of Fin q \<Rightarrow> timeClip (trunc_rat q) | _ \<Rightarrow> InvalidDate)"

definition computeEndISO :: "(jsval \<Rightarrow> jsdate) \<Rightarrow> frontmatter \<Rightarrow> jserror + string" where
  \<comment> \<open>\<open>newDate\<close> is the host's \<open>Date\<close> constructor. \<open>toISOString\<close> of an invalid date
      throws.\<close>
  "computeEndISO newDate fm =
     (let timeEstimate = optToNumber (fm ''timeEstimate'')
      in case fm ''scheduled'' of
           None \<Rightarrow> Inr []
         | Some scheduled \<Rightarrow>
             if \<not> truthy (Some scheduled) then Inr []
             else
               (case newDate scheduled of
                  InvalidDate \<Rightarrow> Inr []
                | Date t \<Rightarrow>
                    if \<not> num_truthy timeEstimate \<or> timeEstimate = NaN then Inr []
                    else
                      (case dateOfNumber
                              (case timeEstimate of
                                 Fin q \<Rightarrow> Fin (of_int t + q * 60000)
                               | n \<Rightarrow> n) of
                         InvalidDate \<Rightarrow> Inl RangeError
                       | Date e \<Rightarrow> Inr (toISOString e))))"

definition basenameOf :: "string \<Rightarrow> string" where
  \<comment> \<open>The host's \<open>TFile.basename\<close>: the name without its final extension, when the
      last dot is neither the first nor the last character.\<close>
  "basenameOf nm =
     (let r = rev nm; suf = takeWhile (\<lambda>c. c \<noteq> CHR ''.'') r; rest = dropWhile (\<lambda>c. c \<noteq> CHR ''.'') r
      in if suf = [] \<or> rest = [] \<or> tl rest = [] then nm else rev (tl rest))"

definition vaultCopy :: "vault \<Rightarrow> string \<Rightarrow> string \<Rightarrow> vault" where
  \<comment> \<open>The host's \<open>vault.copy\<close>: the stored file of \<open>src\<close> also at \<open>dst\<close>.\<close>
  "vaultCopy v src dst = (case v src of None \<Rightarrow> v | Some f \<Rightarrow> v(dst \<mapsto> f))"

definition nameOfPath :: "string \<Rightarrow> string" where
  \<comment> \<open>The host's \<open>TFile.name\<close>: the part of the path after its last slash.\<close>
  "nameOfPath p = rev (takeWhile (\<lambda>c. c \<noteq> CHR ''/'') (rev p))"

definition destinationPath :: "TFile \<Rightarrow> int \<Rightarrow> string" where
  \<comment> \<open>\<open>newPath\<close> in \<open>handleRecurrenceCompletion\<close>.\<close>
  "destinationPath file nextDate =
     (let parentPath = (case fileParent file of None \<Rightarrow> [] | Some p \<Rightarrow> p);
          newName = generateNextName (fileName file) nextDate
      in if parentPath \<noteq> [] then parentPath @ ''/'' @ newName else newName)"

definition handleRecurrenceCompletion ::
  "zone \<Rightarrow> (jsval \<Rightarrow> jsdate) \<Rightarrow> vault \<Rightarrow> TFile \<Rightarrow> frontmatter \<Rightarrow> vault \<times> completion" where
  \<comment> \<open>\<open>newDate\<close> is the host's \<open>Date\<close> constructor. A returned date is always valid; were it
      not, \<open>toISOString\<close> in \<open>generateNextName\<close> would throw.\<close>
  "handleRecurrenceCompletion z newDate v file fm =
     (let recurrence = getRecurrenceValue (Some fm)
      in if recurrence = [] then (v, Returned)
         else
           (case fm ''scheduled'' of
              None \<Rightarrow> (v, Returned)
            | Some scheduled \<Rightarrow>
                if \<not> truthy (Some scheduled) then (v, Returned)
                else
                  (case computeNextOccurrence z recurrence (newDate scheduled) of
                     None \<Rightarrow> (v, Returned)
                   | Some InvalidDate \<Rightarrow> (v, Threw RangeError)
                   | Some (Date nextDate) \<Rightarrow>
                       (let newPath = destinationPath file nextDate
                        in if v newPath \<noteq> None then (v, Returned)
                           else
                             (let v1 = vaultCopy v (filePath file) newPath
                              in if v1 newPath = None then (v1, Returned)
                                 else
                                   (let v2 = updateFrontmatterValue v1 newPath ''recurrenceRule'' None;
                                        v3 = updateFrontmatterValue v2 newPath ''recurrence'' None;
                                        v4 = updateFrontmatterValue v3 newPath ''status''
                                               (Some (VStr ''open''));
                                        newScheduledISO = toISOString nextDate;
                                        v5 = updateFrontmatterValue v4 newPath ''scheduled''
                                               (Some (VStr newScheduledISO));
                                        timeEstimate = optToNumber (fm ''timeEstimate'')
                                    in case computeEndISO newDate
                                              [''scheduled'' \<mapsto> VStr newScheduledISO,
                                               ''timeEstimate'' \<mapsto> VNum timeEstimate] of
                                         Inl e \<Rightarrow> (v5, Threw e)
                                       | Inr endISO \<Rightarrow>
                                           (let v6 = updateFrontmatterValue v5 newPath ''sheduledEnd''
                                                       (if endISO = [] then None
                                                        else Some (VStr endISO));
                                                v7 = updateFrontmatterValue v6 newPath ''title''
                                                       (Some (VStr (basenameOf (nameOfPath newPath))))
                                            in (v7, Returned))))))))"

definition setRecurrenceFields ::
  "vault \<Rightarrow> TFile \<Rightarrow> frontmatter \<Rightarrow> string \<Rightarrow> vault \<times> frontmatter" where
  \<comment> \<open>Returns the vault and the in-memory frontmatter of the entry, both updated.\<close>
  "setRecurrenceFields v file fm value =
     (let trimmed = trim value;
          p = filePath file;
          v' = (case v p of
                  None \<Rightarrow> v
                | Some f \<Rightarrow>
                    v(p \<mapsto> f\<lparr> storedFrontmatter :=
                                 (if trimmed \<noteq> []
                                  then (storedFrontmatter f)(''recurrenceRule'' \<mapsto> VStr trimmed,
                                                             ''recurrence'' := None)
                                  else (storedFrontmatter f)(''recurrenceRule'' := None,
                                                             ''recurrence'' := None)) \<rparr>))
      in if trimmed \<noteq> []
         then (v', fm(''recurrenceRule'' \<mapsto> VStr trimmed, ''recurrence'' := None))
         else (v', fm(''recurrenceRule'' := None, ''recurrence'' := None)))"

definition statusSelected ::
  "zone \<Rightarrow> (jsval \<Rightarrow> jsdate) \<Rightarrow> vault \<Rightarrow> TFile \<Rightarrow> frontmatter \<Rightarrow> string
     \<Rightarrow> vault \<times> frontmatter \<times> completion" where
  \<comment> \<open>The handler of the status row for one entry: the status is written, a blocked task
      loses its rule, a newly completed one spawns its successor.\<close>
  "statusSelected z newDate v file fm value =
     (let oldStatus = (if truthy (fm ''status'') then fm ''status'' else Some (VStr ''open''));
          v1 = updateFrontmatterValue v (filePath file) ''status'' (Some (VStr value));
          fm1 = fm(''status'' \<mapsto> VStr value);
          vf = (if value = ''blocked'' then setRecurrenceFields v1 file fm1 [] else (v1, fm1))
      in if (value = ''complete'' \<or> value = ''wont-do'') \<and> oldStatus \<noteq> Some (VStr value)
         then (case handleRecurrenceCompletion z newDate (fst vf) file (snd vf) of
                 (v3, c) \<Rightarrow> (v3, snd vf, c))
         else (fst vf, snd vf, Returned))"

section \<open>The candidates of the search\<close>

definition stepped :: "zone \<Rightarrow> ParsedRecurrence \<Rightarrow> jsdate \<Rightarrow> nat \<Rightarrow> jsdate" where
  \<comment> \<open>The candidate after \<open>k\<close> steps from the anchor.\<close>
  "stepped z parsed baseDate k = ((\<lambda>d. incrementRecurrence z d parsed) ^^ k) baseDate"

section \<open>Parts of a rule text\<close>

definition recognisedPart :: "string \<Rightarrow> bool" where
  \<comment> \<open>A part \<open>KEY=VALUE\<close> with both sides present and one of the three keys.\<close>
  "recognisedPart part =
     (case split_on CHR ''='' part of
        key # val # _ \<Rightarrow>
          key \<noteq> [] \<and> val \<noteq> [] \<and>
          (toUpperCase (trim key) = ''FREQ'' \<or> toUpperCase (trim key) = ''INTERVAL''
           \<or> toUpperCase (trim key) = ''BYDAY'')
      | _ \<Rightarrow> False)"

definition setsInterval :: "string \<Rightarrow> bool" where
  \<comment> \<open>A part with the key INTERVAL whose value converts to a number above zero.\<close>
  "setsInterval part =
     (case split_on CHR ''='' part of
        key # val # _ \<Rightarrow>
          key \<noteq> [] \<and> val \<noteq> [] \<and> toUpperCase (trim key) = ''INTERVAL''
          \<and> toNumber (trim val) \<noteq> NaN \<and> num_positive (toNumber (trim val))
      | _ \<Rightarrow> False)"

section \<open>A host for the examples\<close>

definition numericNewDate :: "jsval \<Rightarrow> jsdate" where
  \<comment> \<open>The \<open>Date\<close> constructor on null, booleans and numbers. How the host reads text is
      outside this development: the examples hold their dates as numbers, and text and
      lists are read here as invalid dates.\<close>
  "numericNewDate x =
     (case x of
        VNull \<Rightarrow> Date 0
      | VBool b \<Rightarrow> Date (if b then 1 else 0)
      | VNum n \<Rightarrow> dateOfNumber n
      | _ \<Rightarrow> InvalidDate)"

definition standup :: TFile where
  "standup = \<lparr> filePath = ''Tasks/Standup.md'', fileName = ''Standup.md'',
               fileParent = Some ''Tasks'' \<rparr>"

definition standupStored :: "frontmatter \<Rightarrow> StoredFile" where
  "standupStored fm = \<lparr> storedFrontmatter = fm, storedBody = ''Notes'' \<rparr>"

definition dailyFm :: frontmatter where
  \<comment> \<open>Scheduled on 1 January 2024, 09:00 UTC, as a time value.\<close>
  "dailyFm = [''status'' \<mapsto> VStr ''complete'', ''scheduled'' \<mapsto> VNum (Fin 1704099600000),
              ''recurrenceRule'' \<mapsto> VStr ''RRULE:FREQ=DAILY'']"

definition listRuleFm :: frontmatter where
  "listRuleFm = [''recurrenceRule'' \<mapsto> VList [VStr ''RRULE:FREQ=DAILY''],
                 ''scheduled'' \<mapsto> VNum (Fin 1704099600000)]"

definition nullRuleFm :: frontmatter where
  "nullRuleFm = [''recurrenceRule'' \<mapsto> VNull, ''recurrence'' \<mapsto> VStr ''RRULE:FREQ=DAILY'',
                 ''scheduled'' \<mapsto> VNum (Fin 1704099600000)]"

definition zeroRuleFm :: frontmatter where
  "zeroRuleFm = [''recurrenceRule'' \<mapsto> VNum (Fin 0),
                 ''scheduled'' \<mapsto> VNum (Fin 1704099600000)]"

definition nanRuleFm :: frontmatter where
  "nanRuleFm = [''recurrenceRule'' \<mapsto> VNum NaN, ''recurrence'' \<mapsto> VStr ''RRULE:FREQ=DAILY'',
                ''scheduled'' \<mapsto> VNum (Fin 1704099600000)]"

definition legacyListFm :: frontmatter where
  "legacyListFm = [''recurrenceRule'' \<mapsto> VStr ''RRULE:FREQ=DAILY'', ''recurrence'' \<mapsto> VList []]"

definition standupVault :: "frontmatter \<Rightarrow> vault" where
  "standupVault fm = [''Tasks/Standup.md'' \<mapsto> standupStored fm]"

definition crowdedVault :: "frontmatter \<Rightarrow> vault" where
  \<comment> \<open>The file of the task and a file where its successor would go.\<close>
  "crowdedVault fm = (standupVault fm)(''Tasks/Standup 2024-01-02.md'' \<mapsto> standupStored Map.empty)"

section \<open>Calendar arithmetic\<close>

lemma div_lo:
  fixes x c :: int
  assumes "0 < c"
  shows "c * (x div c) \<le> x"
  using mult_div_mod_eq[of c x] pos_mod_sign[OF assms, of x] by linarith

lemma div_hi:
  fixes x c :: int
  assumes "0 < c"
  shows "x < c * (x div c) + c"
  using mult_div_mod_eq[of c x] pos_mod_bound[OF assms, of x] by linarith

lemma div_succ:
  fixes a c :: int
  assumes "0 < c"
  shows "(a + 1) div c = a div c + (if (a + 1) mod c = 0 then 1 else 0)"
proof -
  define q r where "q = a div c" and "r = a mod c"
  have m: "a = r + c * q" unfolding q_def r_def by simp
  have r: "0 \<le> r" "r < c" unfolding r_def using assms by simp_all
  have "a + 1 = (r + 1) + c * q" using m by simp
  then have d: "(a + 1) div c = q + (r + 1) div c" and e: "(a + 1) mod c = (r + 1) mod c"
    using assms by (simp_all only: div_mult_self2 mod_mult_self2)
  show ?thesis
  proof (cases "r + 1 = c")
    case True then show ?thesis using d e assms q_def by simp
  next
    case False
    then have "r + 1 < c" using r by linarith
    then have "(r + 1) div c = 0" "(r + 1) mod c = r + 1" using r by simp_all
    then show ?thesis using d e r q_def by simp
  qed
qed

lemma mod_shift:
  fixes y c k :: int
  shows "(y - c * k) mod c = y mod c"
  by (metis mod_mult_self2 diff_add_cancel)

lemma DayFromYear_step: "DayFromYear (y + 1) = DayFromYear y + DaysInYear y"
proof -
  have "(y - 1969 + 1) mod 4 = (y - 4 * 492) mod 4" by simp
  then have a: "(y + 1 - 1969) div 4 = (y - 1969) div 4 + (if y mod 4 = 0 then 1 else 0)"
    using div_succ[of 4 "y - 1969"] by (simp only: mod_shift) (simp add: algebra_simps)
  have "(y - 1901 + 1) mod 100 = (y - 100 * 19) mod 100" by simp
  then have b: "(y + 1 - 1901) div 100 = (y - 1901) div 100 + (if y mod 100 = 0 then 1 else 0)"
    using div_succ[of 100 "y - 1901"] by (simp only: mod_shift) (simp add: algebra_simps)
  have "(y - 1601 + 1) mod 400 = (y - 400 * 4) mod 400" by simp
  then have c: "(y + 1 - 1601) div 400 = (y - 1601) div 400 + (if y mod 400 = 0 then 1 else 0)"
    using div_succ[of 400 "y - 1601"] by (simp only: mod_shift) (simp add: algebra_simps)
  have d1: "y mod 400 = 0 \<Longrightarrow> y mod 100 = 0"
    using mod_mod_cancel[of 100 400 y] by simp
  have d2: "y mod 100 = 0 \<Longrightarrow> y mod 4 = 0"
    using mod_mod_cancel[of 4 100 y] by simp
  show ?thesis
    unfolding DayFromYear_def DaysInYear_def a b c using d1 d2 by auto
qed

lemma DayFromYear_lower: "146097 * (y - 1970) - 506 \<le> 400 * DayFromYear y"
proof -
  define A B C where "A = (y - 1969) div 4" and "B = (y - 1901) div 100"
    and "C = (y - 1601) div 400"
  have "y - 1969 < 4 * A + 4" unfolding A_def by (rule div_hi) simp
  moreover have "100 * B \<le> y - 1901" unfolding B_def by (rule div_lo) simp
  moreover have "y - 1601 < 400 * C + 400" unfolding C_def by (rule div_hi) simp
  ultimately show ?thesis
    unfolding DayFromYear_def A_def[symmetric] B_def[symmetric] C_def[symmetric]
    by (simp add: algebra_simps)
qed

lemma DayFromYear_upper: "400 * DayFromYear y \<le> 146097 * (y - 1970) + 589"
proof -
  define A B C where "A = (y - 1969) div 4" and "B = (y - 1901) div 100"
    and "C = (y - 1601) div 400"
  have "4 * A \<le> y - 1969" unfolding A_def by (rule div_lo) simp
  moreover have "y - 1901 < 100 * B + 100" unfolding B_def by (rule div_hi) simp
  moreover have "400 * C \<le> y - 1601" unfolding C_def by (rule div_lo) simp
  ultimately show ?thesis
    unfolding DayFromYear_def A_def[symmetric] B_def[symmetric] C_def[symmetric]
    by (simp add: algebra_simps)
qed

lemma yearOfDay_bounds:
  "DayFromYear (yearOfDay d) \<le> d \<and> d < DayFromYear (yearOfDay d + 1)"
proof -
  define Q where "Q = (d * 400) div 146097"
  define y where "y = 1970 + Q"
  have e1: "146097 * Q \<le> d * 400" unfolding Q_def by (rule div_lo) simp
  have e2: "d * 400 < 146097 * Q + 146097" unfolding Q_def by (rule div_hi) simp
  have l1: "DayFromYear (y - 1) \<le> d"
    using DayFromYear_upper[of "y - 1"] e1 unfolding y_def by (simp add: algebra_simps)
  have l2: "d < DayFromYear (y + 2)"
    using DayFromYear_lower[of "y + 2"] e2 unfolding y_def by (simp add: algebra_simps)
  have l3: "DayFromYear (y + 1 + 1) = DayFromYear (y + 2)" by (simp add: add.assoc)
  have l4: "DayFromYear (y - 1 + 1) = DayFromYear y" by simp
  show ?thesis
    unfolding yearOfDay_def Let_def Q_def[symmetric] y_def[symmetric]
    using l1 l2 l3 l4 by auto
qed


lemma DayWithinYear_range:
  "0 \<le> DayWithinYear t \<and> DayWithinYear t < DaysInYear (YearFromTime t)"
  using yearOfDay_bounds[of "Day t"] DayFromYear_step[of "YearFromTime t"]
  unfolding DayWithinYear_def YearFromTime_def by linarith

lemma DaysInYear_cases: "DaysInYear y = 365 \<or> DaysInYear y = 366"
  unfolding DaysInYear_def by simp

lemma MonthFromTime_range: "0 \<le> MonthFromTime t \<and> MonthFromTime t \<le> 11"
  unfolding MonthFromTime_def Let_def by simp

lemma month_date_decomp:
  "monthStart (InLeapYear t) (MonthFromTime t) + DateFromTime t - 1 = DayWithinYear t"
  using DayWithinYear_range[of t]
  unfolding monthStart_def DateFromTime_def MonthFromTime_def Let_def
  by (simp split: if_splits)

lemma MakeDay_civil:
  "MakeDay (YearFromTime t) (MonthFromTime t) (DateFromTime t + k) = Day t + k"
proof -
  have m: "MonthFromTime t div 12 = 0" "MonthFromTime t mod 12 = MonthFromTime t"
    using MonthFromTime_range[of t] by simp_all
  have "MakeDay (YearFromTime t) (MonthFromTime t) (DateFromTime t + k)
          = DayFromYear (YearFromTime t)
            + monthStart (InLeapYear t) (MonthFromTime t) + (DateFromTime t + k) - 1"
    unfolding MakeDay_def Let_def m InLeapYear_def by simp
  also have "\<dots> = DayFromYear (YearFromTime t) + DayWithinYear t + k"
    using month_date_decomp[of t] by linarith
  also have "\<dots> = Day t + k"
    unfolding DayWithinYear_def by simp
  finally show ?thesis .
qed

lemma MakeDate_shift: "MakeDate (Day t + k) (TimeWithinDay t) = t + k * msPerDay"
  unfolding MakeDate_def Day_def TimeWithinDay_def by (simp add: algebra_simps)

lemma LocalTime_fixed [simp]: "LocalTime (fixedZone c) t = t + c"
  unfolding LocalTime_def fixedZone_def by simp

lemma UTC_fixed [simp]: "UTC (fixedZone c) l = l - c"
  unfolding UTC_def fixedZone_def by simp

lemma setDate_next_fixed:
  "setDate (fixedZone c) t (getDate (fixedZone c) t + 1) = timeClip (t + msPerDay)"
  unfolding setDate_def getDate_def Let_def
  by (simp add: MakeDay_civil MakeDate_shift)

section \<open>The bounded search\<close>

lemma stepped_0 [simp]: "stepped z parsed b 0 = b"
  unfolding stepped_def by simp

lemma stepped_Suc: "stepped z parsed b (Suc k) = incrementRecurrence z (stepped z parsed b k) parsed"
  unfolding stepped_def by simp

lemma stepped_shift:
  "stepped z parsed (incrementRecurrence z c parsed) k = stepped z parsed c (Suc k)"
  unfolding stepped_def funpow.simps comp_def by (rule funpow_swap1[symmetric])

lemma upt_shift_map: "map f [Suc m..<Suc n] = map (\<lambda>k. f (Suc k)) [m..<n]"
  by (simp only: map_Suc_upt[symmetric] map_map comp_def)

lemma searchLoop_find:
  "i \<le> 500 \<Longrightarrow>
   searchLoop z parsed b c i =
     find (\<lambda>x. matchesRecurrence z x b parsed) (map (stepped z parsed c) [1..<501 - i])"
proof (induction z parsed b c i rule: searchLoop.induct)
  case (1 z parsed b c i)
  show ?case
  proof (cases "i < 500")
    case False
    with 1(2) have "i = 500" by simp
    then show ?thesis by simp
  next
    case True
    define c' where "c' = incrementRecurrence z c parsed"
    define n where "n = 499 - i"
    have e: "501 - i = Suc (Suc n)" "501 - (i + 1) = Suc n"
      using True unfolding n_def by simp_all
    have split: "[1..<Suc (Suc n)] = 1 # [Suc 1..<Suc (Suc n)]"
      by (rule upt_conv_Cons) simp
    have tail: "map (stepped z parsed c) [Suc 1..<Suc (Suc n)]
                  = map (stepped z parsed c') [1..<Suc n]"
      unfolding upt_shift_map c'_def stepped_shift ..
    have first: "stepped z parsed c 1 = c'"
      unfolding c'_def using stepped_Suc[of z parsed c 0] by simp
    have unfold: "searchLoop z parsed b c i =
                    (if matchesRecurrence z c' b parsed then Some c'
                     else searchLoop z parsed b c' (i + 1))"
      using True unfolding c'_def by (subst searchLoop.simps) (simp add: Let_def)
    show ?thesis
    proof (cases "matchesRecurrence z c' b parsed")
      case True
      then show ?thesis
        unfolding unfold e split by (simp only: list.map first find.simps if_True)
    next
      case False
      have "searchLoop z parsed b c' (i + 1) =
              find (\<lambda>x. matchesRecurrence z x b parsed)
                   (map (stepped z parsed c') [1..<501 - (i + 1)])"
        using 1(1)[OF True c'_def False] True by simp
      then show ?thesis
        using False unfolding unfold e split
        by (simp only: list.map first find.simps if_False tail)
    qed
  qed
qed

lemma nextOccurrence_find:
  "nextOccurrence z parsed b =
     (if b = InvalidDate \<or> freq parsed = None \<or> freq parsed = Some [] then None
      else find (\<lambda>x. matchesRecurrence z x b parsed) (map (stepped z parsed b) [1..<501]))"
  unfolding nextOccurrence_def using searchLoop_find[of 0 z parsed b b] by simp

section \<open>Facts about matching\<close>

lemma matches_invalid [simp]:
  "\<not> matchesRecurrence z InvalidDate b parsed" "\<not> matchesRecurrence z c InvalidDate parsed"
  unfolding matchesRecurrence_def by (simp_all split: jsdate.splits)

lemma matches_unknown_freq:
  assumes "freqOrDaily parsed \<noteq> ''DAILY''" "freqOrDaily parsed \<noteq> ''WEEKLY''"
    "freqOrDaily parsed \<noteq> ''MONTHLY''"
  shows "\<not> matchesRecurrence z c b parsed"
  using assms unfolding matchesRecurrence_def Let_def by (simp split: jsdate.splits)

lemma getWeekdayCode_range:
  "getWeekdayCode day \<in> {''SU'', ''MO'', ''TU'', ''WE'', ''TH'', ''FR'', ''SA''}"
proof (cases "0 \<le> day \<and> day < 7")
  case False
  then show ?thesis unfolding getWeekdayCode_def by auto
next
  case True
  then have "day = 0 \<or> day = 1 \<or> day = 2 \<or> day = 3 \<or> day = 4 \<or> day = 5 \<or> day = 6"
    by auto
  then show ?thesis unfolding getWeekdayCode_def by auto
qed

lemma matches_weekly_foreign_days:
  assumes "freq parsed = Some ''WEEKLY''" "byDay parsed \<noteq> []"
    and "set (byDay parsed) \<inter> {''SU'', ''MO'', ''TU'', ''WE'', ''TH'', ''FR'', ''SA''} = {}"
  shows "\<not> matchesRecurrence z c b parsed"
proof -
  have fr: "freqOrDaily parsed = ''WEEKLY''" using assms(1) unfolding freqOrDaily_def by simp
  have "getWeekdayCode d \<notin> set (byDay parsed)" for d
    using getWeekdayCode_range[of d] assms(3) by blast
  then show ?thesis
    using assms(2) unfolding matchesRecurrence_def Let_def fr
    by (simp split: jsdate.splits)
qed

section \<open>Remainders and daily stepping\<close>

lemma msPerDay_pos: "0 < msPerDay"
  unfolding msPerDay_def by simp

lemma rem_is_zero_int:
  assumes "0 \<le> k" "0 < n"
  shows "rem_is_zero k (Fin (of_int n)) \<longleftrightarrow> k mod n = 0"
proof -
  have nz: "(of_int n :: rat) \<noteq> 0" using assms(2) by simp
  have "0 \<le> (of_int k :: rat) / of_int n" using assms by simp
  then have "trunc_rat (of_int k / of_int n) = k div n"
    unfolding trunc_rat_def by (simp add: floor_divide_of_int_eq)
  then have "(of_int k :: rat) - of_int n * of_int (trunc_rat (of_int k / of_int n))
               = of_int (k - n * (k div n))"
    by simp
  also have "k - n * (k div n) = k mod n"
    by (simp add: minus_mult_div_eq_mod)
  finally show ?thesis
    unfolding rem_is_zero_def js_rem_def using nz by simp
qed

lemma nextOccurrence_first:
  assumes "freq parsed \<noteq> None" "freq parsed \<noteq> Some []"
    and "1 \<le> k" "k \<le> 500"
    and "matchesRecurrence z (stepped z parsed (Date t) k) (Date t) parsed"
    and "\<forall>j. 1 \<le> j \<and> j < k \<longrightarrow> \<not> matchesRecurrence z (stepped z parsed (Date t) j) (Date t) parsed"
  shows "nextOccurrence z parsed (Date t) = Some (stepped z parsed (Date t) k)"
proof -
  let ?P = "\<lambda>c. matchesRecurrence z c (Date t) parsed"
  let ?xs = "map (stepped z parsed (Date t)) [1..<501]"
  have nth: "?xs ! j = stepped z parsed (Date t) (Suc j)" if "j < 500" for j
    using that by (simp add: nth_map_upt del: upt_Suc)
  obtain i where i: "k = Suc i" using assms(3) by (cases k) auto
  have "find ?P ?xs = Some (stepped z parsed (Date t) k)"
    unfolding find_Some_iff
  proof (intro exI[of _ i] conjI allI impI)
    show "i < length ?xs" using assms(4) i by simp
    show "?P (?xs ! i)" using assms(4,5) i nth[of i] by simp
    show "stepped z parsed (Date t) k = ?xs ! i" using assms(4) i nth[of i] by simp
    fix j assume "j < i"
    then show "\<not> ?P (?xs ! j)"
      using assms(4,6) i nth[of j] by simp
  qed
  then show ?thesis
    unfolding nextOccurrence_find using assms(1,2) by simp
qed

lemma nextOccurrence_matches:
  assumes "nextOccurrence z parsed b = Some r"
  shows "matchesRecurrence z r b parsed"
proof -
  have "find (\<lambda>x. matchesRecurrence z x b parsed) (map (stepped z parsed b) [1..<501]) = Some r"
    using assms unfolding nextOccurrence_find by (simp split: if_splits)
  then show ?thesis unfolding find_Some_iff by blast
qed

lemma trunc_rat_of_int [simp]: "trunc_rat (of_int k) = k"
  unfolding trunc_rat_def by simp

lemma rem_is_zero_multiple:
  assumes "q \<noteq> 0"
  shows "rem_is_zero n (Fin q) \<longleftrightarrow> (\<exists>k::int. of_int n = q * of_int k)"
proof
  assume "rem_is_zero n (Fin q)"
  then have "(of_int n :: rat) - q * of_int (trunc_rat (of_int n / q)) = 0"
    unfolding rem_is_zero_def js_rem_def using assms by simp
  then have "(of_int n :: rat) = q * of_int (trunc_rat (of_int n / q))" by simp
  then show "\<exists>k::int. of_int n = q * of_int k" by blast
next
  assume "\<exists>k::int. of_int n = q * of_int k"
  then obtain k :: int where k: "(of_int n :: rat) = q * of_int k" by blast
  then have "(of_int n :: rat) / q = of_int k" using assms by simp
  then have "trunc_rat (of_int n / q) = k" by simp
  then show "rem_is_zero n (Fin q)"
    unfolding rem_is_zero_def js_rem_def using assms k by simp
qed

lemma rem_is_zero_infinite:
  "rem_is_zero n PosInf \<longleftrightarrow> n = 0" "rem_is_zero n NegInf \<longleftrightarrow> n = 0"
  unfolding rem_is_zero_def js_rem_def by simp_all

lemma rem_is_zero_one: "rem_is_zero n (Fin 1)"
  using rem_is_zero_multiple[of 1 n] by simp

lemma intervalOrOne_cases:
  "interval parsed = Fin q \<Longrightarrow> q \<noteq> 0 \<Longrightarrow> intervalOrOne parsed = Fin q"
  "interval parsed = PosInf \<Longrightarrow> intervalOrOne parsed = PosInf"
  "interval parsed = NegInf \<Longrightarrow> intervalOrOne parsed = NegInf"
  "interval parsed = Fin 0 \<Longrightarrow> intervalOrOne parsed = Fin 1"
  "interval parsed = NaN \<Longrightarrow> intervalOrOne parsed = Fin 1"
  unfolding intervalOrOne_def num_truthy_def by simp_all

lemma div_less_bound:
  fixes x d k :: int
  assumes "0 < d" "x < k * d"
  shows "x div d < k"
proof -
  have "d * (x div d) < d * k"
    using div_lo[OF assms(1), of x] assms(2) by (simp add: mult.commute)
  then show ?thesis using assms(1) by (simp add: mult_less_cancel_left_pos)
qed

lemma div_bounds_eq:
  fixes x d k :: int
  assumes "0 < d" "k * d \<le> x" "x < (k + 1) * d"
  shows "x div d = k"
proof -
  have "d * k < d * (x div d + 1)"
    using div_hi[OF assms(1), of x] assms(2) by (simp add: algebra_simps)
  then have "k < x div d + 1" using assms(1) by (simp add: mult_less_cancel_left_pos)
  moreover have "x div d < k + 1" using assms(1,3) by (rule div_less_bound)
  ultimately show ?thesis by simp
qed

lemma setDate_next:
  "setDate z t (getDate z t + 1) = timeClip (UTC z (LocalTime z t + msPerDay))"
  unfolding setDate_def getDate_def Let_def
  by (simp add: MakeDay_civil MakeDate_shift)

lemma matches_daily_whole_days:
  assumes "freq parsed = Some ''DAILY''" "interval parsed = Fin (of_int n)" "0 < n"
  shows "matchesRecurrence z c (Date t) parsed
           = (case c of
                InvalidDate \<Rightarrow> False
              | Date u \<Rightarrow> 0 < (u - t) div msPerDay \<and> ((u - t) div msPerDay) mod n = 0)"
proof (cases c)
  case InvalidDate
  then show ?thesis by simp
next
  case (Date u)
  have fr: "freqOrDaily parsed = ''DAILY''"
    using assms(1) unfolding freqOrDaily_def by simp
  have iv: "intervalOrOne parsed = Fin (of_int n)"
    using assms(2,3) intervalOrOne_cases(1)[of parsed "of_int n"] by simp
  have "rem_is_zero ((u - t) div msPerDay) (Fin (of_int n)) \<longleftrightarrow> ((u - t) div msPerDay) mod n = 0"
    if "0 < (u - t) div msPerDay"
    using that assms(3) by (intro rem_is_zero_int) simp_all
  then show ?thesis
    unfolding Date matchesRecurrence_def Let_def fr iv by auto
qed

lemma stepped_daily_local:
  assumes "freqOrDaily parsed \<noteq> ''MONTHLY''" and "L = LocalTime z t"
    and "\<forall>k. 1 \<le> k \<and> k \<le> int m \<longrightarrow>
            LocalTime z (UTC z (L + k * msPerDay)) = L + k * msPerDay
            \<and> \<bar>UTC z (L + k * msPerDay)\<bar> \<le> maxTime"
  shows "Suc j \<le> m \<Longrightarrow> stepped z parsed (Date t) (Suc j) = Date (UTC z (L + int (Suc j) * msPerDay))"
proof (induction j)
  case 0
  have "\<bar>UTC z (L + 1 * msPerDay)\<bar> \<le> maxTime"
    using assms(3) 0 by (metis int_ops(2) of_nat_mono order_refl of_nat_Suc of_nat_0 add.commute add_0)
  then have "timeClip (UTC z (LocalTime z t + msPerDay)) = Date (UTC z (L + msPerDay))"
    unfolding timeClip_def assms(2) by simp
  then show ?case
    unfolding stepped_Suc stepped_0 incrementRecurrence_def
    using assms(1) by (simp add: setDate_next)
next
  case (Suc j)
  define u where "u = UTC z (L + int (Suc j) * msPerDay)"
  have ih: "stepped z parsed (Date t) (Suc j) = Date u"
    unfolding u_def using Suc by simp
  have r1: "1 \<le> int (Suc j) \<and> int (Suc j) \<le> int m" using Suc.prems by simp
  have r2: "1 \<le> int (Suc (Suc j)) \<and> int (Suc (Suc j)) \<le> int m" using Suc.prems by simp
  have rt: "LocalTime z u = L + int (Suc j) * msPerDay"
    unfolding u_def using assms(3) r1 by blast
  have sum: "L + int (Suc j) * msPerDay + msPerDay = L + int (Suc (Suc j)) * msPerDay"
    by (simp add: algebra_simps)
  have "\<bar>UTC z (L + int (Suc (Suc j)) * msPerDay)\<bar> \<le> maxTime"
    using assms(3) r2 by blast
  then have "timeClip (UTC z (LocalTime z u + msPerDay))
               = Date (UTC z (L + int (Suc (Suc j)) * msPerDay))"
    unfolding timeClip_def rt sum by simp
  then show ?case
    unfolding stepped_Suc[of z parsed "Date t" "Suc j"] ih incrementRecurrence_def
    using assms(1) by (simp add: setDate_next)
qed

section \<open>Months in calendar order\<close>

lemma DayFromYear_mono:
  assumes "y \<le> y'"
  shows "DayFromYear y \<le> DayFromYear y'"
proof -
  have "DayFromYear y \<le> DayFromYear (y + int k)" for k
  proof (induction k)
    case 0
    show ?case by simp
  next
    case (Suc k)
    have "y + int (Suc k) = y + int k + 1" by simp
    then have "DayFromYear (y + int (Suc k)) = DayFromYear (y + int k) + DaysInYear (y + int k)"
      by (simp only: DayFromYear_step)
    then show ?case
      using Suc DaysInYear_cases[of "y + int k"] by linarith
  qed
  from this[of "nat (y' - y)"] show ?thesis using assms by simp
qed

lemma YearFromTime_largest: "DayFromYear y \<le> Day t \<longleftrightarrow> y \<le> YearFromTime t"
proof
  assume "y \<le> YearFromTime t"
  then show "DayFromYear y \<le> Day t"
    using DayFromYear_mono[of y "YearFromTime t"] yearOfDay_bounds[of "Day t"]
    unfolding YearFromTime_def by linarith
next
  assume a: "DayFromYear y \<le> Day t"
  show "y \<le> YearFromTime t"
  proof (rule ccontr)
    assume "\<not> y \<le> YearFromTime t"
    then have "DayFromYear (YearFromTime t + 1) \<le> DayFromYear y"
      by (intro DayFromYear_mono) simp
    then show False
      using a yearOfDay_bounds[of "Day t"] unfolding YearFromTime_def by linarith
  qed
qed

lemma month_cases:
  assumes "0 \<le> m" "m \<le> 11"
  shows "m = 0 \<or> m = 1 \<or> m = 2 \<or> m = 3 \<or> m = 4 \<or> m = 5 \<or> m = 6 \<or> m = 7
         \<or> m = 8 \<or> m = 9 \<or> m = 10 \<or> m = (11::int)"
  using assms by arith

lemma monthStart_step:
  assumes "0 \<le> m" "m < 11" "0 \<le> leap"
  shows "monthStart leap m + 28 \<le> monthStart leap (m + 1)"
  using month_cases[of m] assms unfolding monthStart_def by auto

lemma monthStart_mono:
  assumes "0 \<le> m" "m < m'" "m' \<le> 11" "0 \<le> leap"
  shows "monthStart leap m + 28 \<le> monthStart leap m'"
proof -
  have "monthStart leap m + 28 \<le> monthStart leap (m + 1 + int k)" if "m + 1 + int k \<le> 11" for k
    using that
  proof (induction k)
    case 0
    show ?case using monthStart_step[of m leap] assms 0 by simp
  next
    case (Suc k)
    have "monthStart leap (m + 1 + int k) + 28 \<le> monthStart leap (m + 1 + int k + 1)"
      by (rule monthStart_step) (use assms(1,4) Suc.prems in simp_all)
    then show ?case using Suc by (simp add: add.assoc)
  qed
  from this[of "nat (m' - m - 1)"] show ?thesis using assms by simp
qed

lemma monthStart_bounds:
  assumes "0 \<le> m" "m \<le> 11" "0 \<le> leap"
  shows "0 \<le> monthStart leap m" "monthStart leap m \<le> 334 + leap"
  using month_cases[OF assms(1,2)] assms(3) unfolding monthStart_def by auto

lemma Day_civil:
  "Day t = DayFromYear (YearFromTime t) + monthStart (InLeapYear t) (MonthFromTime t)
           + DateFromTime t - 1"
  using month_date_decomp[of t] unfolding DayWithinYear_def by linarith

lemma InLeapYear_range: "0 \<le> InLeapYear t" "DaysInYear (YearFromTime t) = 365 + InLeapYear t"
  using DaysInYear_cases[of "YearFromTime t"] unfolding InLeapYear_def by auto

lemma later_month_days:
  assumes "YearFromTime s * 12 + MonthFromTime s < YearFromTime t * 12 + MonthFromTime t"
    and "DateFromTime s = DateFromTime t"
  shows "Day s + 28 \<le> Day t"
proof -
  note ms = MonthFromTime_range[of s] and mt = MonthFromTime_range[of t]
  show ?thesis
  proof (cases "YearFromTime s = YearFromTime t")
    case True
    then have l: "InLeapYear s = InLeapYear t" unfolding InLeapYear_def by simp
    have "MonthFromTime s < MonthFromTime t" using assms(1) True by simp
    then have "monthStart (InLeapYear t) (MonthFromTime s) + 28
                 \<le> monthStart (InLeapYear t) (MonthFromTime t)"
      using ms mt InLeapYear_range(1)[of t] by (intro monthStart_mono) simp_all
    then show ?thesis
      using Day_civil[of s, unfolded l True] Day_civil[of t] assms(2) by linarith
  next
    case False
    then have "YearFromTime s < YearFromTime t" using assms(1) ms mt by linarith
    then have "DayFromYear (YearFromTime s + 1) \<le> DayFromYear (YearFromTime t)"
      by (intro DayFromYear_mono) simp
    then have "DayFromYear (YearFromTime s) + 365 + InLeapYear s \<le> DayFromYear (YearFromTime t)"
      using DayFromYear_step[of "YearFromTime s"] InLeapYear_range(2)[of s] by linarith
    moreover have "monthStart (InLeapYear s) (MonthFromTime s) \<le> 334 + InLeapYear s"
      using ms InLeapYear_range(1)[of s] by (intro monthStart_bounds(2)) simp_all
    moreover have "0 \<le> monthStart (InLeapYear t) (MonthFromTime t)"
      using mt InLeapYear_range(1)[of t] by (intro monthStart_bounds(1)) simp_all
    ultimately show ?thesis
      using Day_civil[of s] Day_civil[of t] assms(2) by linarith
  qed
qed

lemma Day_bounds: "Day t * msPerDay \<le> t" "t < Day t * msPerDay + msPerDay"
  using div_lo[OF msPerDay_pos, of t] div_hi[OF msPerDay_pos, of t]
  unfolding Day_def by (simp_all add: mult.commute)

lemma later_month_whole_day:
  assumes "(getFullYear z b) * 12 + getMonth z b < (getFullYear z c) * 12 + getMonth z c"
    and "getDate z c = getDate z b"
    and "\<bar>utcOffset z b\<bar> \<le> msPerDay" "\<bar>utcOffset z c\<bar> \<le> msPerDay"
  shows "0 < (c - b) div msPerDay"
proof -
  have "Day (LocalTime z b) + 28 \<le> Day (LocalTime z c)"
    using assms(1,2) unfolding getFullYear_def getMonth_def getDate_def
    by (intro later_month_days) simp_all
  then have "(Day (LocalTime z b) + 28) * msPerDay \<le> Day (LocalTime z c) * msPerDay"
    using msPerDay_pos by (simp only: mult_right_mono less_imp_le)
  then have "LocalTime z b + 27 * msPerDay < LocalTime z c"
    using Day_bounds(2)[of "LocalTime z b"] Day_bounds(1)[of "LocalTime z c"]
    by (simp add: algebra_simps)
  then have "msPerDay \<le> c - b"
    using assms(3,4) msPerDay_pos unfolding LocalTime_def by linarith
  then show ?thesis
    using pos_imp_zdiv_pos_iff[OF msPerDay_pos, of "c - b"] by simp
qed

lemma nextOccurrence_unknown_freq:
  assumes "freq parsed = Some f" "f \<noteq> ''DAILY''" "f \<noteq> ''WEEKLY''" "f \<noteq> ''MONTHLY''"
  shows "nextOccurrence z parsed baseDate = None"
proof (cases "f = []")
  case True
  then show ?thesis using assms(1) unfolding nextOccurrence_def by simp
next
  case False
  then have fr: "freqOrDaily parsed = f" using assms(1) unfolding freqOrDaily_def by simp
  have "\<not> matchesRecurrence z c baseDate parsed" for c
    by (rule matches_unknown_freq) (use fr assms in simp_all)
  then have "find (\<lambda>x. matchesRecurrence z x baseDate parsed)
               (map (stepped z parsed baseDate) [1..<501]) = None"
    unfolding find_None_iff by simp
  then show ?thesis unfolding nextOccurrence_find by simp
qed

section \<open>Parsing\<close>

lemma applyPart_unrecognised:
  assumes "\<not> recognisedPart part"
  shows "applyPart r part = r"
  using assms unfolding applyPart_def recognisedPart_def Let_def
  by (auto split: list.splits)

lemma applyPart_interval_kept:
  assumes "\<not> setsInterval part"
  shows "interval (applyPart r part) = interval r"
  using assms unfolding applyPart_def setsInterval_def Let_def
  by (auto split: list.splits)

lemma applyPart_interval_positive:
  assumes "num_positive (interval r)"
  shows "num_positive (interval (applyPart r part))"
  using assms unfolding applyPart_def Let_def
  by (auto split: list.splits)

lemma foldl_applyPart_unrecognised:
  assumes "\<forall>part \<in> set parts. \<not> recognisedPart part"
  shows "foldl applyPart r parts = r"
  using assms by (induction parts arbitrary: r) (simp_all add: applyPart_unrecognised)

lemma foldl_applyPart_interval_kept:
  assumes "\<forall>part \<in> set parts. \<not> setsInterval part"
  shows "interval (foldl applyPart r parts) = interval r"
  using assms by (induction parts arbitrary: r) (simp_all add: applyPart_interval_kept)

lemma foldl_applyPart_interval_positive:
  assumes "num_positive (interval r)"
  shows "num_positive (interval (foldl applyPart r parts))"
  using assms by (induction parts arbitrary: r) (simp_all add: applyPart_interval_positive)

lemma emptyRecurrence_positive: "num_positive (interval emptyRecurrence)"
  unfolding emptyRecurrence_def num_positive_def by simp

section \<open>The vault\<close>

lemma updateFrontmatterValue_present:
  "updateFrontmatterValue v p key value q \<noteq> None \<longleftrightarrow> v q \<noteq> None"
  unfolding updateFrontmatterValue_def by (simp split: option.splits)

lemma handleRecurrenceCompletion_no_rule:
  assumes "getRecurrenceValue (Some fm) = []"
  shows "handleRecurrenceCompletion z newDate v file fm = (v, Returned)"
  using assms unfolding handleRecurrenceCompletion_def by simp

lemma getRecurrenceValue_status:
  "getRecurrenceValue (Some (fm(''status'' \<mapsto> x))) = getRecurrenceValue (Some fm)"
  unfolding getRecurrenceValue_def by simp

lemma updateFrontmatterValue_Some:
  "(\<exists>y. updateFrontmatterValue v p key value q = Some y) \<longleftrightarrow> (\<exists>y. v q = Some y)"
  using updateFrontmatterValue_present[of v p key "value" q] by simp

lemma handleRecurrenceCompletion_creates:
  assumes "getRecurrenceValue (Some fm) \<noteq> []"
    and "fm ''scheduled'' = Some scheduled" "truthy (Some scheduled)"
    and "computeNextOccurrence z (getRecurrenceValue (Some fm)) (newDate scheduled)
           = Some (Date nextDate)"
    and "v (destinationPath src nextDate) = None" "v (filePath src) \<noteq> None"
  shows "fst (handleRecurrenceCompletion z newDate v src fm) (destinationPath src nextDate)
           \<noteq> None"
proof -
  obtain f where f: "v (filePath src) = Some f" using assms(6) by auto
  have c: "vaultCopy v (filePath src) (destinationPath src nextDate)
             (destinationPath src nextDate) = Some f"
    unfolding vaultCopy_def f by simp
  show ?thesis
    unfolding handleRecurrenceCompletion_def Let_def
    using assms(1-5) c
    by (simp add: updateFrontmatterValue_Some split: sum.splits)
qed

section \<open>Daily rules\<close>




section \<open>Weekly rules\<close>

text \<open>
  Claim C2. For a WEEKLY rule with a non-empty weekday set, a date returned as the next
  occurrence is a valid date, at least one whole day after the anchor, whose local weekday
  code is in the set and whose number of whole weeks after the anchor, the floor of the
  whole days over 7, is a multiple of the interval of the rule: an integer times the
  interval; with an integer interval \<open>n\<close> above zero, a number that \<open>n\<close> divides; with an
  infinite interval, zero.
\<close>

theorem weekly_next_occurrence:
  assumes "freq parsed = Some ''WEEKLY''" and "byDay parsed \<noteq> []"
    and "nextOccurrence z parsed baseDate = Some r"
  shows "\<exists>b c. baseDate = Date b \<and> r = Date c
           \<and> getWeekdayCode (getDay z c) \<in> set (byDay parsed)
           \<and> 0 < (c - b) div msPerDay
           \<and> (\<forall>q. interval parsed = Fin q \<and> q \<noteq> 0 \<longrightarrow>
                  (\<exists>k::int. of_int (((c - b) div msPerDay) div 7) = q * of_int k))
           \<and> (\<forall>n. interval parsed = Fin (of_int n) \<and> 0 < n \<longrightarrow>
                  (((c - b) div msPerDay) div 7) mod n = 0)
           \<and> (interval parsed = PosInf \<or> interval parsed = NegInf \<longrightarrow>
                  ((c - b) div msPerDay) div 7 = 0)"
proof -
  have fr: "freqOrDaily parsed = ''WEEKLY''"
    using assms(1) unfolding freqOrDaily_def by simp
  have m: "matchesRecurrence z r baseDate parsed"
    using assms(3) by (rule nextOccurrence_matches)
  then obtain b c where bc: "baseDate = Date b" "r = Date c"
    by (cases baseDate; cases r) simp_all
  define w where "w = ((c - b) div msPerDay) div 7"
  have basic: "getWeekdayCode (getDay z c) \<in> set (byDay parsed)" "0 < (c - b) div msPerDay"
    "rem_is_zero w (intervalOrOne parsed)"
    using m assms(2) unfolding bc matchesRecurrence_def Let_def fr w_def
    by (simp_all split: if_splits)
  have w0: "0 \<le> w" using basic(2) unfolding w_def by simp
  have a: "\<exists>k::int. of_int w = q * of_int k" if "interval parsed = Fin q \<and> q \<noteq> 0" for q
    using basic(3) that intervalOrOne_cases(1)[of parsed q] rem_is_zero_multiple[of q w]
    by simp
  have b: "w mod n = 0" if "interval parsed = Fin (of_int n) \<and> 0 < n" for n
    using basic(3) that intervalOrOne_cases(1)[of parsed "of_int n"]
      rem_is_zero_int[OF w0, of n]
    by simp
  have c: "w = 0" if "interval parsed = PosInf \<or> interval parsed = NegInf"
    using basic(3) that intervalOrOne_cases(2,3)[of parsed] rem_is_zero_infinite[of w]
    by auto
  show ?thesis
    using bc basic(1,2) a b c unfolding w_def by blast
qed

theorem weekly_next_occurrence_witness:
  "nextOccurrence (fixedZone 0) (parseRecurrence ''RRULE:FREQ=WEEKLY;BYDAY=MO,WE,FR'')
     (Date 1704099600000) = Some (Date 1704272400000)
   \<and> getWeekdayCode (getDay (fixedZone 0) 1704099600000) = ''MO''
   \<and> getWeekdayCode (getDay (fixedZone 0) 1704272400000) = ''WE''
   \<and> getWeekdayCode (getDay (fixedZone 0) 1704272400000)
       \<in> set (byDay (parseRecurrence ''RRULE:FREQ=WEEKLY;BYDAY=MO,WE,FR''))
   \<and> nextOccurrence (fixedZone 0) (parseRecurrence ''RRULE:FREQ=WEEKLY;INTERVAL=2;BYDAY=MO'')
        (Date 1704099600000) = Some (Date 1705309200000)
   \<and> interval (parseRecurrence ''RRULE:FREQ=WEEKLY;INTERVAL=2;BYDAY=MO'') = Fin 2
   \<and> getWeekdayCode (getDay (fixedZone 0) 1705309200000) = ''MO''
   \<and> (1705309200000 - 1704099600000) div msPerDay = 14
   \<and> (((1705309200000 - 1704099600000) div msPerDay) div 7) mod 2 = 0"
proof -
  let ?p = "parseRecurrence ''RRULE:FREQ=WEEKLY;BYDAY=MO,WE,FR''"
  let ?q = "parseRecurrence ''RRULE:FREQ=WEEKLY;INTERVAL=2;BYDAY=MO''"
  have p: "?p = \<lparr> freq = Some ''WEEKLY'', interval = Fin 1, byDay = [''MO'', ''WE'', ''FR''] \<rparr>"
    by code_simp
  have q: "?q = \<lparr> freq = Some ''WEEKLY'', interval = Fin 2, byDay = [''MO''] \<rparr>"
    by code_simp
  have r: "nextOccurrence (fixedZone 0) ?p (Date 1704099600000) = Some (Date 1704272400000)"
    by code_simp
  have s: "nextOccurrence (fixedZone 0) ?q (Date 1704099600000) = Some (Date 1705309200000)"
    by code_simp
  have w: "getWeekdayCode (getDay (fixedZone 0) 1704099600000) = ''MO''"
    "getWeekdayCode (getDay (fixedZone 0) 1704272400000) = ''WE''"
    "getWeekdayCode (getDay (fixedZone 0) 1705309200000) = ''MO''"
    by code_simp+
  have d: "(1705309200000 - 1704099600000) div msPerDay = 14"
    unfolding msPerDay_def by simp
  have fp: "freq ?p = Some ''WEEKLY''" "byDay ?p \<noteq> []" unfolding p by simp_all
  have fq: "freq ?q = Some ''WEEKLY''" "byDay ?q \<noteq> []" "interval ?q = Fin (of_int 2) \<and> (0::int) < 2"
    unfolding q by simp_all
  have m1: "getWeekdayCode (getDay (fixedZone 0) 1704272400000) \<in> set (byDay ?p)"
    using weekly_next_occurrence[OF fp r] by simp
  have m2: "(((1705309200000 - 1704099600000) div msPerDay) div 7) mod 2 = 0"
    using weekly_next_occurrence[OF fq(1,2) s] fq(3) by simp
  show ?thesis
    using r s w d m1 m2 q by simp
qed

section \<open>Monthly rules\<close>

text \<open>
  Claim C3. For a MONTHLY rule, a valid candidate matches a valid anchor exactly when the
  difference in calendar months between them (twelve times the difference of the local
  years plus the difference of the local months) is positive, is a multiple of the
  interval of the rule, and the local day of the month of the candidate is that of the
  anchor. A multiple of the interval is an integer times it: with an integer interval \<open>n\<close>
  above zero, a number that \<open>n\<close> divides; no positive number is a multiple of an infinite
  interval; an interval of zero or \<open>NaN\<close> counts as 1. The time zone's offsets at the two
  instants are at most a day, as those of every zone are; then a later month with the same
  day of the month is at least one whole day later, which is what the code tests first.
\<close>

theorem monthly_matches:
  assumes "freq parsed = Some ''MONTHLY''"
    and "\<bar>utcOffset z b\<bar> \<le> msPerDay" "\<bar>utcOffset z c\<bar> \<le> msPerDay"
    and "monthsDiff = (getFullYear z c - getFullYear z b) * 12 + (getMonth z c - getMonth z b)"
  shows "(\<forall>q. interval parsed = Fin q \<and> q \<noteq> 0 \<longrightarrow>
            (matchesRecurrence z (Date c) (Date b) parsed \<longleftrightarrow>
               0 < monthsDiff \<and> (\<exists>k::int. of_int monthsDiff = q * of_int k)
               \<and> getDate z c = getDate z b))
         \<and> (\<forall>n. interval parsed = Fin (of_int n) \<and> 0 < n \<longrightarrow>
              (matchesRecurrence z (Date c) (Date b) parsed \<longleftrightarrow>
                 0 < monthsDiff \<and> monthsDiff mod n = 0 \<and> getDate z c = getDate z b))
         \<and> (interval parsed = PosInf \<or> interval parsed = NegInf \<longrightarrow>
              \<not> matchesRecurrence z (Date c) (Date b) parsed)
         \<and> (interval parsed = Fin 0 \<or> interval parsed = NaN \<longrightarrow>
              (matchesRecurrence z (Date c) (Date b) parsed \<longleftrightarrow>
                 0 < monthsDiff \<and> getDate z c = getDate z b))"
proof -
  have fr: "freqOrDaily parsed = ''MONTHLY''"
    using assms(1) unfolding freqOrDaily_def by simp
  have day: "0 < (c - b) div msPerDay"
    if "0 < monthsDiff" and "getDate z c = getDate z b"
  proof (rule later_month_whole_day[OF _ that(2) assms(2,3)])
    show "getFullYear z b * 12 + getMonth z b < getFullYear z c * 12 + getMonth z c"
      using that(1) unfolding assms(4) by (simp add: algebra_simps)
  qed
  have m: "matchesRecurrence z (Date c) (Date b) parsed \<longleftrightarrow>
             0 < monthsDiff \<and> rem_is_zero monthsDiff (intervalOrOne parsed)
             \<and> getDate z c = getDate z b"
    using day unfolding assms(4) matchesRecurrence_def Let_def fr
    by auto
  have a: "matchesRecurrence z (Date c) (Date b) parsed \<longleftrightarrow>
             0 < monthsDiff \<and> (\<exists>k::int. of_int monthsDiff = q * of_int k)
             \<and> getDate z c = getDate z b"
    if "interval parsed = Fin q \<and> q \<noteq> 0" for q
    unfolding m using that intervalOrOne_cases(1)[of parsed q] rem_is_zero_multiple[of q monthsDiff]
    by simp
  have b: "matchesRecurrence z (Date c) (Date b) parsed \<longleftrightarrow>
             0 < monthsDiff \<and> monthsDiff mod n = 0 \<and> getDate z c = getDate z b"
    if "interval parsed = Fin (of_int n) \<and> 0 < n" for n
  proof (cases "0 < monthsDiff")
    case True
    then have "rem_is_zero monthsDiff (intervalOrOne parsed) \<longleftrightarrow> monthsDiff mod n = 0"
      using that intervalOrOne_cases(1)[of parsed "of_int n"] rem_is_zero_int[of monthsDiff n]
      by simp
    then show ?thesis unfolding m by simp
  next
    case False
    then show ?thesis unfolding m by simp
  qed
  have c: "\<not> matchesRecurrence z (Date c) (Date b) parsed"
    if "interval parsed = PosInf \<or> interval parsed = NegInf"
    unfolding m using that intervalOrOne_cases(2,3)[of parsed] rem_is_zero_infinite[of monthsDiff]
    by auto
  have d: "matchesRecurrence z (Date c) (Date b) parsed \<longleftrightarrow>
             0 < monthsDiff \<and> getDate z c = getDate z b"
    if "interval parsed = Fin 0 \<or> interval parsed = NaN"
    unfolding m using that intervalOrOne_cases(4,5)[of parsed] rem_is_zero_one[of monthsDiff]
    by auto
  show ?thesis using a b c d by blast
qed

theorem monthly_matches_witness:
  "matchesRecurrence (fixedZone 0) (Date 1707987600000) (Date 1705309200000)
     (parseRecurrence ''RRULE:FREQ=MONTHLY'')
   \<and> nextOccurrence (fixedZone 0) (parseRecurrence ''RRULE:FREQ=MONTHLY'') (Date 1705309200000)
       = Some (Date 1707987600000)
   \<and> (getFullYear (fixedZone 0) 1705309200000, getMonth (fixedZone 0) 1705309200000,
        getDate (fixedZone 0) 1705309200000, TimeWithinDay 1705309200000)
       = (2024, 0, 15, 32400000)
   \<and> (getFullYear (fixedZone 0) 1707987600000, getMonth (fixedZone 0) 1707987600000,
        getDate (fixedZone 0) 1707987600000, TimeWithinDay 1707987600000)
       = (2024, 1, 15, 32400000)
   \<and> interval (parseRecurrence ''RRULE:FREQ=MONTHLY;INTERVAL=2'') = Fin 2
   \<and> \<not> matchesRecurrence (fixedZone 0) (Date 1707987600000) (Date 1705309200000)
          (parseRecurrence ''RRULE:FREQ=MONTHLY;INTERVAL=2'')
   \<and> matchesRecurrence (fixedZone 0) (Date 1710493200000) (Date 1705309200000)
        (parseRecurrence ''RRULE:FREQ=MONTHLY;INTERVAL=2'')
   \<and> nextOccurrence (fixedZone 0) (parseRecurrence ''RRULE:FREQ=MONTHLY;INTERVAL=2'')
        (Date 1705309200000) = Some (Date 1710493200000)
   \<and> (getFullYear (fixedZone 0) 1710493200000, getMonth (fixedZone 0) 1710493200000,
        getDate (fixedZone 0) 1710493200000, TimeWithinDay 1710493200000)
       = (2024, 2, 15, 32400000)"
proof -
  let ?p = "parseRecurrence ''RRULE:FREQ=MONTHLY''"
  let ?q = "parseRecurrence ''RRULE:FREQ=MONTHLY;INTERVAL=2''"
  have p: "?p = \<lparr> freq = Some ''MONTHLY'', interval = Fin 1, byDay = [] \<rparr>"
    by code_simp
  have q: "?q = \<lparr> freq = Some ''MONTHLY'', interval = Fin 2, byDay = [] \<rparr>"
    by code_simp
  have f1: "(getFullYear (fixedZone 0) 1705309200000, getMonth (fixedZone 0) 1705309200000,
        getDate (fixedZone 0) 1705309200000, TimeWithinDay 1705309200000)
       = (2024, 0, 15, 32400000)"
    by code_simp
  have f2: "(getFullYear (fixedZone 0) 1707987600000, getMonth (fixedZone 0) 1707987600000,
        getDate (fixedZone 0) 1707987600000, TimeWithinDay 1707987600000)
       = (2024, 1, 15, 32400000)"
    by code_simp
  have f3: "(getFullYear (fixedZone 0) 1710493200000, getMonth (fixedZone 0) 1710493200000,
        getDate (fixedZone 0) 1710493200000, TimeWithinDay 1710493200000)
       = (2024, 2, 15, 32400000)"
    by code_simp
  have o: "\<bar>utcOffset (fixedZone 0) t\<bar> \<le> msPerDay" for t
    unfolding fixedZone_def msPerDay_def by simp
  have fp: "freq ?p = Some ''MONTHLY''" "interval ?p = Fin (of_int 1) \<and> (0::int) < 1"
    unfolding p by simp_all
  have fq: "freq ?q = Some ''MONTHLY''" "interval ?q = Fin (of_int 2) \<and> (0::int) < 2"
    unfolding q by simp_all
  have d1: "(1::int) = (getFullYear (fixedZone 0) 1707987600000
                         - getFullYear (fixedZone 0) 1705309200000) * 12
                       + (getMonth (fixedZone 0) 1707987600000
                          - getMonth (fixedZone 0) 1705309200000)"
    using f1 f2 by simp
  have d2: "(2::int) = (getFullYear (fixedZone 0) 1710493200000
                         - getFullYear (fixedZone 0) 1705309200000) * 12
                       + (getMonth (fixedZone 0) 1710493200000
                          - getMonth (fixedZone 0) 1705309200000)"
    using f1 f3 by simp
  have m1: "matchesRecurrence (fixedZone 0) (Date 1707987600000) (Date 1705309200000) ?p"
    using monthly_matches[OF fp(1) o o d1, THEN conjunct2, THEN conjunct1, rule_format, OF fp(2)]
      f1 f2
    by simp
  have m2: "\<not> matchesRecurrence (fixedZone 0) (Date 1707987600000) (Date 1705309200000) ?q"
    using monthly_matches[OF fq(1) o o d1, THEN conjunct2, THEN conjunct1, rule_format, OF fq(2)]
    by simp
  have m3: "matchesRecurrence (fixedZone 0) (Date 1710493200000) (Date 1705309200000) ?q"
    using monthly_matches[OF fq(1) o o d2, THEN conjunct2, THEN conjunct1, rule_format, OF fq(2)]
      f1 f3
    by simp
  have r1: "nextOccurrence (fixedZone 0) ?p (Date 1705309200000) = Some (Date 1707987600000)"
    by code_simp
  have r2: "nextOccurrence (fixedZone 0) ?q (Date 1705309200000) = Some (Date 1710493200000)"
    by code_simp
  show ?thesis using m1 m2 m3 r1 r2 f1 f2 f3 q by simp
qed

section \<open>Termination and the bound of the search\<close>

text \<open>
  Claim C4. For every rule and every anchor the search for the next occurrence terminates:
  it is a total function whose loop runs at most 500 times. Its result is the first of the
  candidates after 1 to 500 steps that matches, so it tests no other candidate, and it is
  none when none of these 500 matches, as for a rule that no date can satisfy.
\<close>

theorem nextOccurrence_bounded_search:
  "nextOccurrence z parsed baseDate =
     (if baseDate = InvalidDate \<or> freq parsed = None \<or> freq parsed = Some [] then None
      else find (\<lambda>c. matchesRecurrence z c baseDate parsed)
                (map (stepped z parsed baseDate) [1..<501]))
   \<and> ((\<forall>k \<in> {1..500}. \<not> matchesRecurrence z (stepped z parsed baseDate k) baseDate parsed)
        \<longrightarrow> nextOccurrence z parsed baseDate = None)
   \<and> (\<forall>c. nextOccurrence z parsed baseDate = Some c \<longrightarrow>
          (\<exists>k \<in> {1..500}. c = stepped z parsed baseDate k
              \<and> matchesRecurrence z c baseDate parsed
              \<and> (\<forall>j \<in> {1..<k}. \<not> matchesRecurrence z (stepped z parsed baseDate j) baseDate parsed)))"
proof (intro conjI allI impI)
  show eq: "nextOccurrence z parsed baseDate =
     (if baseDate = InvalidDate \<or> freq parsed = None \<or> freq parsed = Some [] then None
      else find (\<lambda>c. matchesRecurrence z c baseDate parsed)
                (map (stepped z parsed baseDate) [1..<501]))"
    by (rule nextOccurrence_find)
  {
    assume none: "\<forall>k \<in> {1..500}. \<not> matchesRecurrence z (stepped z parsed baseDate k) baseDate parsed"
    have "find (\<lambda>c. matchesRecurrence z c baseDate parsed)
            (map (stepped z parsed baseDate) [1..<501]) = None"
      unfolding find_None_iff using none by auto
    then show "nextOccurrence z parsed baseDate = None"
      unfolding eq by simp
  }
  {
    fix c
    assume some: "nextOccurrence z parsed baseDate = Some c"
    let ?P = "\<lambda>c. matchesRecurrence z c baseDate parsed"
    let ?xs = "map (stepped z parsed baseDate) [1..<501]"
    have "find ?P ?xs = Some c"
      using some unfolding eq by (simp split: if_splits)
    then obtain i where i: "i < length ?xs" "?P (?xs ! i)" "c = ?xs ! i"
      "\<forall>j<i. \<not> ?P (?xs ! j)"
      unfolding find_Some_iff by blast
    have len: "i < 500" using i(1) by simp
    have nth: "?xs ! j = stepped z parsed baseDate (Suc j)" if "j < 500" for j
      using that by (simp add: nth_map_upt del: upt_Suc)
    have prior: "\<not> ?P (stepped z parsed baseDate j)" if "j \<in> {1..<Suc i}" for j
    proof -
      from that obtain j' where j': "j = Suc j'" "j' < i"
        by (cases j) auto
      then have "\<not> ?P (?xs ! j')" using i(4) by blast
      then show ?thesis using nth[of j'] j' len by simp
    qed
    show "\<exists>k \<in> {1..500}. c = stepped z parsed baseDate k
              \<and> matchesRecurrence z c baseDate parsed
              \<and> (\<forall>j \<in> {1..<k}. \<not> matchesRecurrence z (stepped z parsed baseDate j) baseDate parsed)"
    proof (intro bexI[of _ "Suc i"] conjI ballI)
      show "c = stepped z parsed baseDate (Suc i)" using i(3) nth[OF len] by simp
      show "matchesRecurrence z c baseDate parsed" using i(2,3) by simp
      show "Suc i \<in> {1..500}" using len by simp
    qed (rule prior)
  }
qed

theorem nextOccurrence_bounded_search_witness:
  "\<not> (\<exists>k \<in> {1..500}.
         matchesRecurrence (fixedZone 0)
           (stepped (fixedZone 0) (parseRecurrence ''RRULE:FREQ=WEEKLY;BYDAY=XX'') (Date 0) k)
           (Date 0) (parseRecurrence ''RRULE:FREQ=WEEKLY;BYDAY=XX''))
   \<and> nextOccurrence (fixedZone 0) (parseRecurrence ''RRULE:FREQ=WEEKLY;BYDAY=XX'') (Date 0) = None"
proof -
  have p: "parseRecurrence ''RRULE:FREQ=WEEKLY;BYDAY=XX''
             = \<lparr> freq = Some ''WEEKLY'', interval = Fin 1, byDay = [''XX''] \<rparr>"
    by code_simp
  have never: "\<not> matchesRecurrence (fixedZone 0) c (Date 0)
                   (parseRecurrence ''RRULE:FREQ=WEEKLY;BYDAY=XX'')" for c
    by (rule matches_weekly_foreign_days) (simp_all add: p)
  show ?thesis
    using nextOccurrence_bounded_search
      [of "fixedZone 0" "parseRecurrence ''RRULE:FREQ=WEEKLY;BYDAY=XX''" "Date 0"] never
    by blast
qed

section \<open>Names of successors\<close>

text \<open>
  Claim C5, at an input where the code departs from it. The name
  \<open>Weekly Report 2024-01-08.md\<close> ends with a date; for the target date 8 January 2024 the
  replacement leaves the base name as it is, the code takes an unchanged name to mean
  that no date was found, and it appends the stamp: the result carries two dates. For the
  name dated 1 January the trailing date is replaced, as the claim says.
\<close>

theorem generateNextName_same_date:
  "generateNextName ''Weekly Report 2024-01-08.md'' 1704704400000
     = ''Weekly Report 2024-01-08 2024-01-08.md''
   \<and> generateNextName ''Weekly Report 2024-01-01.md'' 1704704400000
     = ''Weekly Report 2024-01-08.md''
   \<and> take 10 (toISOString 1704704400000) = ''2024-01-08''"
  by code_simp

section \<open>The collision guard\<close>

text \<open>
  Claim C6. When the rule of the completed task has a next occurrence and a file already
  exists at the path computed for the successor, completion returns with the vault as it
  was: no file is created and no stored frontmatter, that of the source included, is
  changed. The handler of a status change to complete or wont-do then leaves exactly the
  vault that the write of the status gave.
\<close>

theorem collision_guard:
  assumes "fm ''scheduled'' = Some scheduled"
    and "computeNextOccurrence z (getRecurrenceValue (Some fm)) (newDate scheduled)
           = Some (Date nextDate)"
    and "v (destinationPath src nextDate) \<noteq> None"
  shows "handleRecurrenceCompletion z newDate v src fm = (v, Returned)
         \<and> ((value = ''complete'' \<or> value = ''wont-do'')
              \<and> (if truthy (fm ''status'') then fm ''status'' else Some (VStr ''open''))
                  \<noteq> Some (VStr value)
             \<longrightarrow> statusSelected z newDate v src fm value
                   = (updateFrontmatterValue v (filePath src) ''status'' (Some (VStr value)),
                      fm(''status'' \<mapsto> VStr value), Returned))"
proof -
  have guard: "handleRecurrenceCompletion z newDate w src g = (w, Returned)"
    if "g ''scheduled'' = Some scheduled"
      and "computeNextOccurrence z (getRecurrenceValue (Some g)) (newDate scheduled)
             = Some (Date nextDate)"
      and "w (destinationPath src nextDate) \<noteq> None"
    for w g
    using that unfolding handleRecurrenceCompletion_def Let_def by simp
  have first: "handleRecurrenceCompletion z newDate v src fm = (v, Returned)"
    using assms by (rule guard)
  have second: "statusSelected z newDate v src fm value
                   = (updateFrontmatterValue v (filePath src) ''status'' (Some (VStr value)),
                      fm(''status'' \<mapsto> VStr value), Returned)"
    if h: "(value = ''complete'' \<or> value = ''wont-do'')
              \<and> (if truthy (fm ''status'') then fm ''status'' else Some (VStr ''open''))
                  \<noteq> Some (VStr value)"
  proof -
    let ?v1 = "updateFrontmatterValue v (filePath src) ''status'' (Some (VStr value))"
    let ?fm1 = "fm(''status'' \<mapsto> VStr value)"
    have nb: "value \<noteq> ''blocked''" using h by auto
    have sch: "?fm1 ''scheduled'' = Some scheduled" using assms(1) by simp
    have nxt: "computeNextOccurrence z (getRecurrenceValue (Some ?fm1)) (newDate scheduled)
                 = Some (Date nextDate)"
      unfolding getRecurrenceValue_status by (rule assms(2))
    have ex: "?v1 (destinationPath src nextDate) \<noteq> None"
      unfolding updateFrontmatterValue_present by (rule assms(3))
    have "handleRecurrenceCompletion z newDate ?v1 src ?fm1 = (?v1, Returned)"
      using sch nxt ex by (rule guard)
    then show ?thesis
      unfolding statusSelected_def Let_def using nb h by simp
  qed
  show ?thesis using first second by blast
qed

theorem collision_guard_witness:
  "handleRecurrenceCompletion (fixedZone 0) numericNewDate (crowdedVault dailyFm) standup dailyFm
     = (crowdedVault dailyFm, Returned)
   \<and> destinationPath standup 1704186000000 = ''Tasks/Standup 2024-01-02.md''
   \<and> crowdedVault dailyFm ''Tasks/Standup 2024-01-02.md'' \<noteq> None"
proof -
  have s: "dailyFm ''scheduled'' = Some (VNum (Fin 1704099600000))"
    unfolding dailyFm_def by simp
  have r: "getRecurrenceValue (Some dailyFm) = ''RRULE:FREQ=DAILY''"
    unfolding getRecurrenceValue_def dailyFm_def truthy_def by simp
  have d: "numericNewDate (VNum (Fin 1704099600000)) = Date 1704099600000"
    by code_simp
  have n: "computeNextOccurrence (fixedZone 0) (getRecurrenceValue (Some dailyFm))
             (numericNewDate (VNum (Fin 1704099600000))) = Some (Date 1704186000000)"
    unfolding r d by code_simp
  have p: "destinationPath standup 1704186000000 = ''Tasks/Standup 2024-01-02.md''"
    by code_simp
  have e: "crowdedVault dailyFm ''Tasks/Standup 2024-01-02.md'' \<noteq> None"
    unfolding crowdedVault_def by simp
  have e': "crowdedVault dailyFm (destinationPath standup 1704186000000) \<noteq> None"
    unfolding p by (rule e)
  have "handleRecurrenceCompletion (fixedZone 0) numericNewDate (crowdedVault dailyFm) standup
          dailyFm = (crowdedVault dailyFm, Returned)"
    using collision_guard
      [where fm = dailyFm and scheduled = "VNum (Fin 1704099600000)" and z = "fixedZone 0"
         and newDate = numericNewDate and nextDate = 1704186000000
         and v = "crowdedVault dailyFm" and src = standup, OF s n e']
    by blast
  then show ?thesis using p e by blast
qed

section \<open>The parser is total\<close>

text \<open>
  Claim C7. Parsing is a total function of the text: every operation it uses is defined
  on every string, so no input raises an error. A text that is blank once the prefix is
  removed, and a text none of whose parts is a pair with one of the keys FREQ, INTERVAL
  and BYDAY and a value, give the rule with no frequency, interval 1 and no weekdays. A
  part with the key INTERVAL whose value is not a number above zero leaves the rule, and
  so its interval, as it was.
\<close>

theorem parseRecurrence_total:
  "(trim (stripRRule s) = [] \<longrightarrow> parseRecurrence s = emptyRecurrence)
   \<and> ((\<forall>part \<in> set (split_on CHR '';'' (trim (stripRRule s))). \<not> recognisedPart part)
        \<longrightarrow> parseRecurrence s = emptyRecurrence)
   \<and> (split_on CHR ''='' part = key # val # rest \<and> toUpperCase (trim key) = ''INTERVAL''
        \<and> \<not> (toNumber (trim val) \<noteq> NaN \<and> num_positive (toNumber (trim val)))
        \<longrightarrow> applyPart r part = r)
   \<and> emptyRecurrence = \<lparr> freq = None, interval = Fin 1, byDay = [] \<rparr>"
proof (intro conjI impI)
  show "parseRecurrence s = emptyRecurrence" if "trim (stripRRule s) = []"
    using that unfolding parseRecurrence_def by simp
  show "parseRecurrence s = emptyRecurrence"
    if "\<forall>part \<in> set (split_on CHR '';'' (trim (stripRRule s))). \<not> recognisedPart part"
    using foldl_applyPart_unrecognised[OF that] unfolding parseRecurrence_def Let_def by simp
  show "applyPart r part = r"
    if "split_on CHR ''='' part = key # val # rest \<and> toUpperCase (trim key) = ''INTERVAL''
        \<and> \<not> (toNumber (trim val) \<noteq> NaN \<and> num_positive (toNumber (trim val)))"
    using that unfolding applyPart_def Let_def by auto
  show "emptyRecurrence = \<lparr> freq = None, interval = Fin 1, byDay = [] \<rparr>"
    by (rule emptyRecurrence_def)
qed

theorem parseRecurrence_total_witness:
  "parseRecurrence ''  '' = \<lparr> freq = None, interval = Fin 1, byDay = [] \<rparr>
   \<and> parseRecurrence ''every week;=x;COUNT=3;INTERVAL'' = \<lparr> freq = None, interval = Fin 1, byDay = [] \<rparr>
   \<and> applyPart \<lparr> freq = Some ''DAILY'', interval = Fin 3, byDay = [] \<rparr> ''INTERVAL=-2''
       = \<lparr> freq = Some ''DAILY'', interval = Fin 3, byDay = [] \<rparr>
   \<and> applyPart \<lparr> freq = Some ''DAILY'', interval = Fin 3, byDay = [] \<rparr> ''interval=two''
       = \<lparr> freq = Some ''DAILY'', interval = Fin 3, byDay = [] \<rparr>"
proof -
  let ?r = "\<lparr> freq = Some ''DAILY'', interval = Fin 3, byDay = [] \<rparr>"
  have a: "trim (stripRRule ''  '') = []" by code_simp
  have b: "\<forall>part \<in> set (split_on CHR '';'' (trim (stripRRule ''every week;=x;COUNT=3;INTERVAL''))).
             \<not> recognisedPart part"
    by code_simp
  have c: "split_on CHR ''='' ''INTERVAL=-2'' = ''INTERVAL'' # ''-2'' # []
           \<and> toUpperCase (trim ''INTERVAL'') = ''INTERVAL''
           \<and> \<not> (toNumber (trim ''-2'') \<noteq> NaN \<and> num_positive (toNumber (trim ''-2'')))"
    by code_simp
  have d: "split_on CHR ''='' ''interval=two'' = ''interval'' # ''two'' # []
           \<and> toUpperCase (trim ''interval'') = ''INTERVAL''
           \<and> \<not> (toNumber (trim ''two'') \<noteq> NaN \<and> num_positive (toNumber (trim ''two'')))"
    by code_simp
  show ?thesis
    using parseRecurrence_total[of "''  ''" "''INTERVAL=-2''" "''INTERVAL''" "''-2''" "[]" ?r]
      parseRecurrence_total[of "''every week;=x;COUNT=3;INTERVAL''" "''interval=two''"
        "''interval''" "''two''" "[]" ?r]
      a b c d
    by simp
qed

section \<open>Unrecognised frequencies\<close>

text \<open>
  Claim C8, as amended. For a rule whose frequency is present and is not DAILY, WEEKLY or
  MONTHLY, the search steps by one day, as it does for DAILY, but no candidate matches
  (when the frequency is the empty text the search does not start): the next occurrence
  is none for every anchor.
\<close>

theorem unknown_frequency_no_occurrence:
  assumes "freq parsed = Some f" and "f \<noteq> ''DAILY''" "f \<noteq> ''WEEKLY''" "f \<noteq> ''MONTHLY''"
  shows "nextOccurrence z parsed baseDate = None
         \<and> incrementRecurrence z d parsed
             = incrementRecurrence z d (parsed\<lparr> freq := Some ''DAILY'' \<rparr>)
         \<and> (f \<noteq> [] \<longrightarrow> \<not> matchesRecurrence z c baseDate parsed)"
proof (intro conjI impI)
  show "nextOccurrence z parsed baseDate = None"
    using assms by (rule nextOccurrence_unknown_freq)
  show "incrementRecurrence z d parsed
          = incrementRecurrence z d (parsed\<lparr> freq := Some ''DAILY'' \<rparr>)"
    using assms unfolding incrementRecurrence_def freqOrDaily_def
    by (simp split: jsdate.splits)
  assume "f \<noteq> []"
  then have "freqOrDaily parsed = f" using assms(1) unfolding freqOrDaily_def by simp
  then show "\<not> matchesRecurrence z c baseDate parsed"
    using assms by (intro matches_unknown_freq) simp_all
qed

theorem unknown_frequency_no_occurrence_witness:
  "freq (parseRecurrence ''FREQ=HOURLY;INTERVAL=3'') = Some ''HOURLY''
   \<and> nextOccurrence (fixedZone 0) (parseRecurrence ''FREQ=HOURLY;INTERVAL=3'') (Date 0) = None
   \<and> incrementRecurrence (fixedZone 0) (Date 0) (parseRecurrence ''FREQ=HOURLY;INTERVAL=3'')
       = Date 86400000
   \<and> \<not> matchesRecurrence (fixedZone 0) (Date 259200000) (Date 0)
          (parseRecurrence ''FREQ=HOURLY;INTERVAL=3'')"
proof -
  let ?p = "parseRecurrence ''FREQ=HOURLY;INTERVAL=3''"
  have p: "?p = \<lparr> freq = Some ''HOURLY'', interval = Fin 3, byDay = [] \<rparr>"
    by code_simp
  have f: "freq ?p = Some ''HOURLY''" unfolding p by simp
  have d: "incrementRecurrence (fixedZone 0) (Date 0) (?p\<lparr> freq := Some ''DAILY'' \<rparr>)
             = Date 86400000"
    by code_simp
  show ?thesis
    using unknown_frequency_no_occurrence
      [OF f, of "fixedZone 0" "Date 0" "Date 0" "Date 259200000"] f d
    by simp
qed

text \<open>
  Claim C8 as stated fails: the rule \<open>FREQ=YEARLY\<close> has no next occurrence, while the
  same rule with the frequency DAILY has the following day.
\<close>

theorem unknown_frequency_counterexample:
  "freq (parseRecurrence ''RRULE:FREQ=YEARLY'') = Some ''YEARLY''
   \<and> nextOccurrence (fixedZone 0) (parseRecurrence ''RRULE:FREQ=YEARLY'') (Date 1704099600000)
       = None
   \<and> nextOccurrence (fixedZone 0)
        ((parseRecurrence ''RRULE:FREQ=YEARLY'')\<lparr> freq := Some ''DAILY'' \<rparr>)
        (Date 1704099600000) = Some (Date 1704186000000)"
proof -
  let ?p = "parseRecurrence ''RRULE:FREQ=YEARLY''"
  have p: "?p = \<lparr> freq = Some ''YEARLY'', interval = Fin 1, byDay = [] \<rparr>"
    by code_simp
  have f: "freq ?p = Some ''YEARLY''" unfolding p by simp
  have n: "nextOccurrence (fixedZone 0) ?p (Date 1704099600000) = None"
    using f by (rule nextOccurrence_unknown_freq) simp_all
  have d: "nextOccurrence (fixedZone 0) (?p\<lparr> freq := Some ''DAILY'' \<rparr>) (Date 1704099600000)
             = Some (Date 1704186000000)"
    by code_simp
  show ?thesis using f n d by simp
qed

section \<open>The interval of a parsed rule\<close>

text \<open>
  Claim C9, as amended. For every text, the interval of the parsed rule is a number above
  zero, which need not be an integer and may be infinite; it is 1 when no part of the
  text has the key INTERVAL with a value that converts to a number above zero.
\<close>

theorem parsed_interval_positive:
  "num_positive (interval (parseRecurrence s))
   \<and> ((\<forall>part \<in> set (split_on CHR '';'' (trim (stripRRule s))). \<not> setsInterval part)
        \<longrightarrow> interval (parseRecurrence s) = Fin 1)"
proof (intro conjI impI)
  show "num_positive (interval (parseRecurrence s))"
    unfolding parseRecurrence_def Let_def
    using foldl_applyPart_interval_positive[OF emptyRecurrence_positive] emptyRecurrence_positive
    by simp
  show "interval (parseRecurrence s) = Fin 1"
    if "\<forall>part \<in> set (split_on CHR '';'' (trim (stripRRule s))). \<not> setsInterval part"
    using foldl_applyPart_interval_kept[OF that, of emptyRecurrence]
    unfolding parseRecurrence_def Let_def emptyRecurrence_def by simp
qed

theorem parsed_interval_positive_witness:
  "num_positive (interval (parseRecurrence ''RRULE:FREQ=WEEKLY;INTERVAL=0;interval=x''))
   \<and> interval (parseRecurrence ''RRULE:FREQ=WEEKLY;INTERVAL=0;interval=x'') = Fin 1"
proof -
  have "\<forall>part \<in> set (split_on CHR '';''
            (trim (stripRRule ''RRULE:FREQ=WEEKLY;INTERVAL=0;interval=x''))). \<not> setsInterval part"
    by code_simp
  then show ?thesis
    using parsed_interval_positive[of "''RRULE:FREQ=WEEKLY;INTERVAL=0;interval=x''"] by blast
qed

text \<open>
  Claim C9 as stated fails: \<open>INTERVAL=2.5\<close> gives the interval 2.5, which is not an integer,
  and \<open>INTERVAL=Infinity\<close> gives an infinite one.
\<close>

theorem parsed_interval_counterexample:
  "interval (parseRecurrence ''RRULE:FREQ=DAILY;INTERVAL=2.5'') = Fin (5 / 2)
   \<and> (5 / 2 :: rat) \<notin> \<int>
   \<and> interval (parseRecurrence ''RRULE:FREQ=DAILY;INTERVAL=Infinity'') = PosInf"
proof -
  have a: "interval (parseRecurrence ''RRULE:FREQ=DAILY;INTERVAL=2.5'') = Fin (5 / 2)"
    by code_simp
  have b: "interval (parseRecurrence ''RRULE:FREQ=DAILY;INTERVAL=Infinity'') = PosInf"
    by code_simp
  have c: "(5 / 2 :: rat) \<notin> \<int>"
  proof
    assume "(5 / 2 :: rat) \<in> \<int>"
    then obtain k :: int where "(5 / 2 :: rat) = of_int k" by (auto elim: Ints_cases)
    then have "(5 :: rat) = of_int (2 * k)" by simp
    then have "(5 :: int) = 2 * k" by (metis of_int_eq_iff of_int_numeral)
    then show False by presburger
  qed
  show ?thesis using a b c by simp
qed

section \<open>Rules that are not text\<close>

text \<open>
  Claim C10, as amended. The recurrence value is read from the field \<open>recurrenceRule\<close> when
  that holds a truthy value, and from the legacy field \<open>recurrence\<close> otherwise. It is the
  empty text exactly when the value so selected is absent, not a string, or the empty
  string. So it is empty whenever \<open>recurrenceRule\<close> holds a truthy value that is not a
  string (a list, a number other than zero and \<open>NaN\<close>), and whenever \<open>recurrenceRule\<close> is
  absent or falsy (null, zero, \<open>NaN\<close>, false) and \<open>recurrence\<close> is absent or not a string.
  Completing the task then returns without an error and leaves the vault as it was, as it
  does with both fields removed.
\<close>

theorem non_string_rule_ignored:
  assumes "selected = (if truthy (fm ''recurrenceRule'') then fm ''recurrenceRule''
                       else fm ''recurrence'')"
  shows "(getRecurrenceValue (Some fm) = [] \<longleftrightarrow> \<not> (\<exists>s. s \<noteq> [] \<and> selected = Some (VStr s)))
         \<and> (\<not> (\<exists>s. s \<noteq> [] \<and> selected = Some (VStr s)) \<longrightarrow>
               handleRecurrenceCompletion z newDate v src fm = (v, Returned)
               \<and> handleRecurrenceCompletion z newDate v src fm
                   = handleRecurrenceCompletion z newDate v src
                       (fm(''recurrenceRule'' := None, ''recurrence'' := None)))
         \<and> ((\<exists>x. fm ''recurrenceRule'' = Some x \<and> truthy (Some x) \<and> (\<forall>s. x \<noteq> VStr s))
              \<longrightarrow> \<not> (\<exists>s. s \<noteq> [] \<and> selected = Some (VStr s)))
         \<and> (\<not> truthy (fm ''recurrenceRule'') \<and> (\<forall>s. s \<noteq> [] \<longrightarrow> fm ''recurrence'' \<noteq> Some (VStr s))
              \<longrightarrow> \<not> (\<exists>s. s \<noteq> [] \<and> selected = Some (VStr s)))"
proof (intro conjI impI)
  show iff: "getRecurrenceValue (Some fm) = []
               \<longleftrightarrow> \<not> (\<exists>s. s \<noteq> [] \<and> selected = Some (VStr s))"
  proof (cases selected)
    case None
    then show ?thesis
      using assms unfolding getRecurrenceValue_def Let_def by (simp split: if_splits)
  next
    case (Some x)
    then show ?thesis
      using assms unfolding getRecurrenceValue_def Let_def
      by (cases x) (simp_all split: if_splits)
  qed
  show "\<not> (\<exists>s. s \<noteq> [] \<and> selected = Some (VStr s))"
    if "\<exists>x. fm ''recurrenceRule'' = Some x \<and> truthy (Some x) \<and> (\<forall>s. x \<noteq> VStr s)"
    using that assms by auto
  show "\<not> (\<exists>s. s \<noteq> [] \<and> selected = Some (VStr s))"
    if "\<not> truthy (fm ''recurrenceRule'')
        \<and> (\<forall>s. s \<noteq> [] \<longrightarrow> fm ''recurrence'' \<noteq> Some (VStr s))"
    using that assms by auto
  assume "\<not> (\<exists>s. s \<noteq> [] \<and> selected = Some (VStr s))"
  then have a: "getRecurrenceValue (Some fm) = []" using iff by simp
  have b: "getRecurrenceValue (Some (fm(''recurrenceRule'' := None, ''recurrence'' := None))) = []"
    unfolding getRecurrenceValue_def Let_def truthy_def by simp
  show "handleRecurrenceCompletion z newDate v src fm = (v, Returned)"
    using handleRecurrenceCompletion_no_rule[OF a] .
  show "handleRecurrenceCompletion z newDate v src fm
          = handleRecurrenceCompletion z newDate v src
              (fm(''recurrenceRule'' := None, ''recurrence'' := None))"
    using handleRecurrenceCompletion_no_rule[OF a] handleRecurrenceCompletion_no_rule[OF b]
    by simp
qed

theorem non_string_rule_ignored_witness:
  "getRecurrenceValue (Some listRuleFm) = []
   \<and> handleRecurrenceCompletion (fixedZone 0) numericNewDate (standupVault listRuleFm) standup
        listRuleFm = (standupVault listRuleFm, Returned)
   \<and> listRuleFm ''recurrenceRule'' = Some (VList [VStr ''RRULE:FREQ=DAILY''])
   \<and> zeroRuleFm ''recurrenceRule'' = Some (VNum (Fin 0))
   \<and> zeroRuleFm ''recurrence'' = None
   \<and> getRecurrenceValue (Some zeroRuleFm) = []
   \<and> handleRecurrenceCompletion (fixedZone 0) numericNewDate (standupVault zeroRuleFm) standup
        zeroRuleFm = (standupVault zeroRuleFm, Returned)"
proof -
  have l: "listRuleFm ''recurrenceRule'' = Some (VList [VStr ''RRULE:FREQ=DAILY''])"
    unfolding listRuleFm_def by simp
  have tl: "truthy (Some (VList [VStr ''RRULE:FREQ=DAILY'']))"
    unfolding truthy_def by simp
  have sl: "\<exists>x. listRuleFm ''recurrenceRule'' = Some x \<and> truthy (Some x) \<and> (\<forall>s. x \<noteq> VStr s)"
    using l tl by simp
  note L = non_string_rule_ignored
    [where fm = listRuleFm and z = "fixedZone 0" and newDate = numericNewDate
       and v = "standupVault listRuleFm" and src = standup, OF refl]
  have nl: "\<not> (\<exists>s. s \<noteq> [] \<and> (if truthy (listRuleFm ''recurrenceRule'')
                                then listRuleFm ''recurrenceRule''
                                else listRuleFm ''recurrence'') = Some (VStr s))"
    using L sl by blast
  have rl: "getRecurrenceValue (Some listRuleFm) = []
            \<and> handleRecurrenceCompletion (fixedZone 0) numericNewDate (standupVault listRuleFm)
                 standup listRuleFm = (standupVault listRuleFm, Returned)"
    using L nl by blast
  have z: "zeroRuleFm ''recurrenceRule'' = Some (VNum (Fin 0))" "zeroRuleFm ''recurrence'' = None"
    unfolding zeroRuleFm_def by simp_all
  have sz: "\<not> truthy (zeroRuleFm ''recurrenceRule'')
            \<and> (\<forall>s. s \<noteq> [] \<longrightarrow> zeroRuleFm ''recurrence'' \<noteq> Some (VStr s))"
    unfolding z truthy_def num_truthy_def by simp
  note Z = non_string_rule_ignored
    [where fm = zeroRuleFm and z = "fixedZone 0" and newDate = numericNewDate
       and v = "standupVault zeroRuleFm" and src = standup, OF refl]
  have nz: "\<not> (\<exists>s. s \<noteq> [] \<and> (if truthy (zeroRuleFm ''recurrenceRule'')
                                then zeroRuleFm ''recurrenceRule''
                                else zeroRuleFm ''recurrence'') = Some (VStr s))"
    using Z sz by blast
  have rz: "getRecurrenceValue (Some zeroRuleFm) = []
            \<and> handleRecurrenceCompletion (fixedZone 0) numericNewDate (standupVault zeroRuleFm)
                 standup zeroRuleFm = (standupVault zeroRuleFm, Returned)"
    using Z nz by blast
  show ?thesis using rl l z rz by blast
qed

text \<open>
  Claim C10 as stated fails when one of the two fields holds text and the other does
  not. With \<open>recurrenceRule\<close> null, or the number \<open>NaN\<close>, and a rule in \<open>recurrence\<close>, the
  rule is read and completing the task creates the successor; with a rule in
  \<open>recurrenceRule\<close> and a list in \<open>recurrence\<close>, the rule is read as well.
\<close>

theorem non_string_rule_counterexample:
  "nullRuleFm ''recurrenceRule'' = Some VNull
   \<and> getRecurrenceValue (Some nullRuleFm) = ''RRULE:FREQ=DAILY''
   \<and> standupVault nullRuleFm ''Tasks/Standup 2024-01-02.md'' = None
   \<and> fst (handleRecurrenceCompletion (fixedZone 0) numericNewDate (standupVault nullRuleFm)
            standup nullRuleFm) ''Tasks/Standup 2024-01-02.md'' \<noteq> None
   \<and> legacyListFm ''recurrence'' = Some (VList [])
   \<and> getRecurrenceValue (Some legacyListFm) = ''RRULE:FREQ=DAILY''
   \<and> nanRuleFm ''recurrenceRule'' = Some (VNum NaN)
   \<and> getRecurrenceValue (Some nanRuleFm) = ''RRULE:FREQ=DAILY''"
proof -
  have e0: "nanRuleFm ''recurrenceRule'' = Some (VNum NaN)"
    unfolding nanRuleFm_def by simp
  have e: "getRecurrenceValue (Some nanRuleFm) = ''RRULE:FREQ=DAILY''"
    unfolding getRecurrenceValue_def nanRuleFm_def truthy_def num_truthy_def by simp
  have a0: "nullRuleFm ''recurrenceRule'' = Some VNull"
    unfolding nullRuleFm_def by simp
  have a: "getRecurrenceValue (Some nullRuleFm) = ''RRULE:FREQ=DAILY''"
    unfolding getRecurrenceValue_def nullRuleFm_def truthy_def by simp
  have c0: "legacyListFm ''recurrence'' = Some (VList [])"
    unfolding legacyListFm_def by simp
  have c: "getRecurrenceValue (Some legacyListFm) = ''RRULE:FREQ=DAILY''"
    unfolding getRecurrenceValue_def legacyListFm_def truthy_def by simp
  have s: "nullRuleFm ''scheduled'' = Some (VNum (Fin 1704099600000))"
    unfolding nullRuleFm_def by simp
  have t: "truthy (Some (VNum (Fin 1704099600000)))"
    unfolding truthy_def num_truthy_def by simp
  have d: "numericNewDate (VNum (Fin 1704099600000)) = Date 1704099600000"
    by code_simp
  have n: "computeNextOccurrence (fixedZone 0) (getRecurrenceValue (Some nullRuleFm))
             (numericNewDate (VNum (Fin 1704099600000))) = Some (Date 1704186000000)"
    unfolding a d by code_simp
  have p: "destinationPath standup 1704186000000 = ''Tasks/Standup 2024-01-02.md''"
    by code_simp
  have free: "standupVault nullRuleFm ''Tasks/Standup 2024-01-02.md'' = None"
    unfolding standupVault_def by simp
  have srcp: "standupVault nullRuleFm (filePath standup) \<noteq> None"
    unfolding standupVault_def standup_def by simp
  have b: "fst (handleRecurrenceCompletion (fixedZone 0) numericNewDate (standupVault nullRuleFm)
                 standup nullRuleFm) (destinationPath standup 1704186000000) \<noteq> None"
    using handleRecurrenceCompletion_creates
      [where fm = nullRuleFm and scheduled = "VNum (Fin 1704099600000)" and z = "fixedZone 0"
         and newDate = numericNewDate and nextDate = 1704186000000
         and v = "standupVault nullRuleFm" and src = standup]
      s t n srcp
    by (simp add: a p free)
  show ?thesis using a0 a free b[unfolded p] c0 c e0 e by blast
qed

end
